theory Spec2Isabelle
  imports Complex_Main
begin

chapter \<open>The model\<close>

section \<open>Errors\<close>

text \<open>
  The exceptions the library throws, as values. \<open>invalid_graph\<close> is the library's own
  exception class (exceptions.h); the others are the standard exceptions the sources throw
  (\<open>std::out_of_range\<close>, \<open>std::invalid_argument\<close>, \<open>std::runtime_error\<close>).
  A throwing function returns \<open>error + 'a\<close> with \<open>Inl\<close> for the exception.
\<close>

datatype error = invalid_graph | out_of_range | invalid_argument | runtime_error

section \<open>identifiers.h, node.h, edge.h\<close>

text \<open>
  \<open>node_id\<close> and \<open>edge_id\<close> wrap an \<open>unsigned value\<close>; they are compared by that value.
\<close>

type_synonym node_id = nat
type_synonym edge_id = nat

text \<open>
  Modelled from the spec: the header coords.h, which declares \<open>struct coords\<close>, is not among
  the sources. The specification describes it as a pair \<open>(x, y)\<close> of floats with default
  \<open>(0, 0)\<close>; the fields are named \<open>coords_x\<close> and \<open>coords_y\<close> here.
\<close>

record coords =
  coords_x :: real
  coords_y :: real

definition coords_default :: coords where
  "coords_default = \<lparr>coords_x = 0, coords_y = 0\<rparr>"

text \<open>
  Class \<open>node\<close>: its members \<open>m_coords\<close>, \<open>m_id\<close>, \<open>m_alpha\<close>, \<open>m_newly_added\<close> (read by
  \<open>is_new()\<close>) and \<open>m_to_be_deleted\<close> (read by \<open>is_old()\<close>). The fields carry the prefix
  \<open>n_\<close> to keep them apart from those of the edges.
\<close>

record node =
  n_coords :: coords
  n_id :: node_id
  n_alpha :: real
  n_newly_added :: bool
  n_to_be_deleted :: bool

text \<open>The constructor \<open>node(node_id id)\<close> with the default member initialisers.\<close>

definition new_node :: "node_id \<Rightarrow> node" where
  "new_node i = \<lparr>n_coords = coords_default, n_id = i, n_alpha = 1,
                 n_newly_added = False, n_to_be_deleted = False\<rparr>"

text \<open>
  Class template \<open>basic_edge\<close> (and its subclass \<open>edge\<close>, which adds nothing). The member
  \<open>m_container\<close>, a pointer back to the node container of the owning graph that serves
  \<open>node_one()\<close> and \<open>node_two()\<close>, is not part of the model.
\<close>

record basic_edge =
  e_one :: node_id
  e_two :: node_id
  e_id :: edge_id
  e_alpha :: real
  e_newly_added :: bool
  e_to_be_deleted :: bool

type_synonym edge = basic_edge

definition new_edge :: "edge_id \<Rightarrow> node_id \<Rightarrow> node_id \<Rightarrow> edge" where
  "new_edge i one two = \<lparr>e_one = one, e_two = two, e_id = i, e_alpha = 1,
                         e_newly_added = False, e_to_be_deleted = False\<rparr>"

section \<open>container.h and graph.h\<close>

text \<open>
  \<open>detail::container\<close>: the vector of elements and the hash map from an element's id to
  its position in the vector.
\<close>

record 't container =
  vec :: "'t list"
  map' :: "nat \<rightharpoonup> nat"

definition container_empty :: "'t container" where
  "container_empty = \<lparr>vec = [], map' = Map.empty\<rparr>"

text \<open>
  \<open>container::at\<close> is \<open>vec[map.at(id)]\<close>: \<open>map.at\<close> throws \<open>std::out_of_range\<close> for a
  missing id. The vector is read without a bounds check; the model reports an index beyond
  the vector as \<open>out_of_range\<close> as well.
\<close>

definition container_at :: "'t container \<Rightarrow> nat \<Rightarrow> error + 't" where
  "container_at c i =
     (case map' c i of
        None \<Rightarrow> Inl out_of_range
      | Some k \<Rightarrow> if k < length (vec c) then Inr (vec c ! k) else Inl out_of_range)"

text \<open>
  Class template \<open>graph\<close>, generic in the node and the edge type. \<open>m_index\<close> is the
  adjacency index: for a node the map from neighbouring node to connecting edge.
\<close>

record ('n, 'e) graph =
  m_nodes :: "'n container"
  m_edges :: "'e container"
  m_index :: "node_id \<rightharpoonup> (node_id \<rightharpoonup> edge_id)"

type_synonym graph_state = "(node, edge) graph"

definition graph_empty :: "('n, 'e) graph" where
  "graph_empty = \<lparr>m_nodes = container_empty, m_edges = container_empty, m_index = Map.empty\<rparr>"

abbreviation nodes :: "('n, 'e) graph \<Rightarrow> 'n list" where
  "nodes g \<equiv> vec (m_nodes g)"

abbreviation edges :: "('n, 'e) graph \<Rightarrow> 'e list" where
  "edges g \<equiv> vec (m_edges g)"

definition node_at :: "('a node_scheme, 'e) graph \<Rightarrow> node_id \<Rightarrow> error + 'a node_scheme" where
  "node_at g i = container_at (m_nodes g) i"

definition edge_at :: "('n, 'b basic_edge_scheme) graph \<Rightarrow> edge_id \<Rightarrow> error + 'b basic_edge_scheme" where
  "edge_at g i = container_at (m_edges g) i"

definition node_exists :: "('n, 'e) graph \<Rightarrow> node_id \<Rightarrow> bool" where
  "node_exists g i \<longleftrightarrow> map' (m_nodes g) i \<noteq> None"

text \<open>The overload \<open>edge_exists(edge_id)\<close>.\<close>

definition edge_exists :: "('n, 'e) graph \<Rightarrow> edge_id \<Rightarrow> bool" where
  "edge_exists g i \<longleftrightarrow> map' (m_edges g) i \<noteq> None"

text \<open>\<open>std::unordered_map::emplace\<close> inserts only when the key is not present yet.\<close>

definition emplace :: "('k \<rightharpoonup> 'v) \<Rightarrow> 'k \<Rightarrow> 'v \<Rightarrow> ('k \<rightharpoonup> 'v)" where
  "emplace m k v = (case m k of None \<Rightarrow> m(k \<mapsto> v) | Some _ \<Rightarrow> m)"

text \<open>
  \<open>edges_at_node\<close> is \<open>m_index.at(node_at(node).id())\<close>; both lookups throw
  \<open>std::out_of_range\<close>.
\<close>

definition edges_at_node :: "('a node_scheme, 'e) graph \<Rightarrow> node_id \<Rightarrow> error + (node_id \<rightharpoonup> edge_id)" where
  "edges_at_node g i =
     (case node_at g i of
        Inl e \<Rightarrow> Inl e
      | Inr n \<Rightarrow> (case m_index g (n_id n) of None \<Rightarrow> Inl out_of_range | Some entry \<Rightarrow> Inr entry))"

text \<open>
  The overload \<open>edge_exists(node_id one, node_id two)\<close>:
  \<open>edges_at_node(one).count(node_at(two).id())\<close>.
\<close>

definition edge_exists_between :: "('a node_scheme, 'e) graph \<Rightarrow> node_id \<Rightarrow> node_id \<Rightarrow> error + bool" where
  "edge_exists_between g one two =
     (case edges_at_node g one of
        Inl e \<Rightarrow> Inl e
      | Inr entry \<Rightarrow> (case node_at g two of Inl e \<Rightarrow> Inl e | Inr n \<Rightarrow> Inr (entry (n_id n) \<noteq> None)))"

text \<open>
  \<open>push_node\<close> returns a reference to the node of that id in the graph: the one that was
  there already, or the one just appended. \<open>push_node\<close> below is the graph after the call and
  \<open>push_node_ref\<close> the position in \<open>nodes()\<close> the returned reference points to.
\<close>

definition push_node :: "'a node_scheme \<Rightarrow> ('a node_scheme, 'e) graph \<Rightarrow> ('a node_scheme, 'e) graph" where
  "push_node n g =
     (case map' (m_nodes g) (n_id n) of
        Some found \<Rightarrow> g
      | None \<Rightarrow> g\<lparr>m_nodes := \<lparr>vec = nodes g @ [n],
                                map' = emplace (map' (m_nodes g)) (n_id n) (length (nodes g))\<rparr>,
                   m_index := emplace (m_index g) (n_id n) Map.empty\<rparr>)"

definition push_node_ref :: "'a node_scheme \<Rightarrow> ('a node_scheme, 'e) graph \<Rightarrow> nat" where
  "push_node_ref n g =
     (case map' (m_nodes g) (n_id n) of Some found \<Rightarrow> found | None \<Rightarrow> length (nodes g))"

text \<open>
  \<open>push_edge\<close>: an edge whose id is present is left alone; otherwise both adjacency entries
  are extended, where \<open>m_index.at\<close> throws for an endpoint that is not in the graph, which
  \<open>push_edge\<close> rethrows as \<open>invalid_graph\<close>. The state a caller would find after catching
  that exception is not modelled.
\<close>

definition push_edge :: "'b basic_edge_scheme \<Rightarrow> ('n, 'b basic_edge_scheme) graph
    \<Rightarrow> error + ('n, 'b basic_edge_scheme) graph" where
  "push_edge e g =
     (case map' (m_edges g) (e_id e) of
        Some found \<Rightarrow> Inr g
      | None \<Rightarrow>
          (case m_index g (e_one e) of
             None \<Rightarrow> Inl invalid_graph
           | Some entry_one \<Rightarrow>
               (let index_one = (m_index g)(e_one e \<mapsto> emplace entry_one (e_two e) (e_id e))
                in case index_one (e_two e) of
                     None \<Rightarrow> Inl invalid_graph
                   | Some entry_two \<Rightarrow>
                       Inr (g\<lparr>m_edges := \<lparr>vec = edges g @ [e],
                                            map' = emplace (map' (m_edges g)) (e_id e) (length (edges g))\<rparr>,
                               m_index := index_one(e_two e \<mapsto> emplace entry_two (e_one e) (e_id e))\<rparr>))))"

definition push_edge_ref :: "'b basic_edge_scheme \<Rightarrow> ('n, 'b basic_edge_scheme) graph \<Rightarrow> nat" where
  "push_edge_ref e g =
     (case map' (m_edges g) (e_id e) of Some found \<Rightarrow> found | None \<Rightarrow> length (edges g))"

text \<open>
  \<open>remove_elements_if\<close>: erase the elements the predicate holds for, then clear the map and
  fill it again, \<open>elem.map[elem.vec[i].id()] = i\<close> for every position \<open>i\<close>. The argument
  \<open>ident\<close> is the member function \<open>id()\<close> of the element type.
\<close>

definition reestablish_map :: "('t \<Rightarrow> nat) \<Rightarrow> 't list \<Rightarrow> (nat \<rightharpoonup> nat)" where
  "reestablish_map ident v = fold (\<lambda>i m. m(ident (v ! i) \<mapsto> i)) [0..<length v] Map.empty"

definition remove_elements_if :: "('t \<Rightarrow> nat) \<Rightarrow> ('t \<Rightarrow> bool) \<Rightarrow> 't container \<Rightarrow> 't container" where
  "remove_elements_if ident function elem =
     (let v = filter (\<lambda>n. \<not> function n) (vec elem)
      in \<lparr>vec = v, map' = reestablish_map ident v\<rparr>)"

text \<open>
  The loop in the lambda \<open>side_effect\<close> of \<open>remove_edges_if\<close>: in every entry of the
  adjacency index, erase the keys \<open>edge.one_id()\<close> and \<open>edge.two_id()\<close>.
\<close>

definition erase_in_all_entries :: "(node_id \<rightharpoonup> (node_id \<rightharpoonup> edge_id)) \<Rightarrow> node_id \<Rightarrow> node_id
    \<Rightarrow> (node_id \<rightharpoonup> (node_id \<rightharpoonup> edge_id))" where
  "erase_in_all_entries index one two =
     (\<lambda>k. case index k of None \<Rightarrow> None | Some entry \<Rightarrow> Some (entry(one := None, two := None)))"

text \<open>
  \<open>remove_edges_if\<close>: \<open>std::remove_if\<close> calls \<open>side_effect\<close> once for every edge, in the
  order of the vector, and \<open>side_effect\<close> changes the adjacency index for each edge the
  predicate holds for.
\<close>

definition remove_edges_if :: "('b basic_edge_scheme \<Rightarrow> bool) \<Rightarrow> ('n, 'b basic_edge_scheme) graph
    \<Rightarrow> ('n, 'b basic_edge_scheme) graph" where
  "remove_edges_if function g =
     g\<lparr>m_edges := remove_elements_if e_id function (m_edges g),
       m_index := fold (\<lambda>edge index.
                          if function edge then erase_in_all_entries index (e_one edge) (e_two edge)
                          else index)
                    (edges g) (m_index g)\<rparr>"

text \<open>
  \<open>remove_nodes_if\<close>: for every node the predicate holds for, \<open>side_effect\<close> first removes
  the edges at that node and then the node's entry of the adjacency index; the nodes
  themselves are erased afterwards.
\<close>

definition remove_nodes_if :: "('a node_scheme \<Rightarrow> bool) \<Rightarrow> ('a node_scheme, 'b basic_edge_scheme) graph
    \<Rightarrow> ('a node_scheme, 'b basic_edge_scheme) graph" where
  "remove_nodes_if function g =
     (let g1 = fold (\<lambda>node h.
                       if function node
                       then (let h1 = remove_edges_if
                                        (\<lambda>edge. e_one edge = n_id node \<or> e_two edge = n_id node) h
                             in h1\<lparr>m_index := (m_index h1)(n_id node := None)\<rparr>)
                       else h)
                 (nodes g) g
      in g1\<lparr>m_nodes := remove_elements_if n_id function (m_nodes g)\<rparr>)"

definition remove_edge :: "edge_id \<Rightarrow> ('n, 'b basic_edge_scheme) graph
    \<Rightarrow> error + ('n, 'b basic_edge_scheme) graph" where
  "remove_edge i g =
     (if \<not> edge_exists g i then Inl invalid_graph
      else Inr (remove_edges_if (\<lambda>e. e_id e = i) g))"

definition remove_node :: "node_id \<Rightarrow> ('a node_scheme, 'b basic_edge_scheme) graph
    \<Rightarrow> error + ('a node_scheme, 'b basic_edge_scheme) graph" where
  "remove_node i g =
     (if \<not> node_exists g i then Inl invalid_graph
      else Inr (remove_nodes_if (\<lambda>n. n_id n = i) g))"

definition clear_edges :: "('n, 'e) graph \<Rightarrow> ('n, 'e) graph" where
  "clear_edges g =
     g\<lparr>m_edges := container_empty,
       m_index := (\<lambda>k. case m_index g k of None \<Rightarrow> None | Some entry \<Rightarrow> Some Map.empty)\<rparr>"

definition clear_nodes :: "('n, 'e) graph \<Rightarrow> ('n, 'e) graph" where
  "clear_nodes g = g\<lparr>m_nodes := container_empty, m_index := Map.empty\<rparr>"

text \<open>
  A sequence of calls of the mutating member functions of a \<open>graph_state\<close>, run from left
  to right; the run stops at the first call that throws.
\<close>

datatype graph_operation =
    Push_node node
  | Push_edge edge
  | Remove_node node_id
  | Remove_edge edge_id
  | Clear_nodes
  | Clear_edges

fun graph_call :: "graph_operation \<Rightarrow> graph_state \<Rightarrow> error + graph_state" where
  "graph_call (Push_node n) g = Inr (push_node n g)"
| "graph_call (Push_edge e) g = push_edge e g"
| "graph_call (Remove_node i) g = remove_node i g"
| "graph_call (Remove_edge i) g = remove_edge i g"
| "graph_call Clear_nodes g = Inr (clear_nodes g)"
| "graph_call Clear_edges g = Inr (clear_edges g)"

fun graph_calls :: "graph_operation list \<Rightarrow> graph_state \<Rightarrow> error + graph_state" where
  "graph_calls [] g = Inr g"
| "graph_calls (c # cs) g = (case graph_call c g of Inl e \<Rightarrow> Inl e | Inr g' \<Rightarrow> graph_calls cs g')"

text \<open>
  The member function \<open>edge_exists(one, two)\<close> on the graph that a sequence of calls
  builds from the empty graph.
\<close>

definition edge_exists_after :: "graph_operation list \<Rightarrow> node_id \<Rightarrow> node_id \<Rightarrow> error + bool" where
  "edge_exists_after calls one two =
     (case graph_calls calls graph_empty of
        Inl e \<Rightarrow> Inl e
      | Inr g \<Rightarrow> edge_exists_between g one two)"

text \<open>
  Three nodes \<open>0\<close>, \<open>1\<close>, \<open>2\<close>, the edges \<open>0\<close> between the nodes \<open>0\<close> and \<open>1\<close> and \<open>1\<close>
  between the nodes \<open>0\<close> and \<open>2\<close>, and then the removal of edge \<open>0\<close>.
\<close>

definition remove_one_of_two_edges :: "graph_operation list" where
  "remove_one_of_two_edges =
     [Push_node (new_node 0), Push_node (new_node 1), Push_node (new_node 2),
      Push_edge (new_edge 0 0 1), Push_edge (new_edge 1 0 2), Remove_edge 0]"

text \<open>
  The invariant of a container: the map sends an id to a position iff the element at that
  position of the vector has that id. It makes the ids in the vector pairwise distinct.
\<close>

definition container_ok :: "('t \<Rightarrow> nat) \<Rightarrow> 't container \<Rightarrow> bool" where
  "container_ok ident c \<longleftrightarrow>
     (\<forall>i k. map' c i = Some k \<longleftrightarrow> k < length (vec c) \<and> ident (vec c ! k) = i)"

definition graph_ok :: "('a node_scheme, 'b basic_edge_scheme) graph \<Rightarrow> bool" where
  "graph_ok g \<longleftrightarrow> container_ok n_id (m_nodes g) \<and> container_ok e_id (m_edges g)"

section \<open>dynamic_graph.h\<close>

text \<open>
  The queued modifications are function objects of four shapes, one per member function
  that queues them: \<open>add_node\<close> captures \<open>node(id)\<close>, \<open>add_edge\<close> captures
  \<open>edge(id, one, two)\<close>, \<open>remove_node\<close> and \<open>remove_edge\<close> capture the id.
\<close>

datatype modification =
    Add_node node_id
  | Add_edge edge_id node_id node_id
  | Rem_node node_id
  | Rem_edge edge_id

fun operation :: "modification \<Rightarrow> graph_state \<Rightarrow> error + graph_state" where
  "operation (Add_node i) graph = Inr (push_node (new_node i) graph)"
| "operation (Add_edge i one two) graph = push_edge (new_edge i one two) graph"
| "operation (Rem_node i) graph = remove_node i graph"
| "operation (Rem_edge i) graph = remove_edge i graph"

record dynamic_graph =
  m_last_node_id :: nat
  m_last_edge_id :: nat
  m_states :: "graph_state list"
  m_modifications :: "modification list list"

definition dynamic_graph_default :: dynamic_graph where
  "dynamic_graph_default =
     \<lparr>m_last_node_id = 0, m_last_edge_id = 0, m_states = [], m_modifications = []\<rparr>"

text \<open>
  \<open>add_modification\<close>: grow the vector of steps to \<open>time + 1\<close> entries if it is shorter,
  then append the operation to the entry of \<open>time\<close>. Times and ids are natural numbers
  here; the wrap-around of \<open>unsigned\<close> at \<open>2 ^ 32\<close> is not modelled in this function.
\<close>

definition add_modification :: "nat \<Rightarrow> modification \<Rightarrow> dynamic_graph \<Rightarrow> dynamic_graph" where
  "add_modification time op dg =
     (let mods = (if time \<ge> length (m_modifications dg)
                  then m_modifications dg @ replicate (time + 1 - length (m_modifications dg)) []
                  else m_modifications dg)
      in dg\<lparr>m_modifications := mods[time := mods ! time @ [op]]\<rparr>)"

definition add_node :: "nat \<Rightarrow> dynamic_graph \<Rightarrow> node_id \<times> dynamic_graph" where
  "add_node time dg =
     (let i = m_last_node_id dg
      in (i, add_modification time (Add_node i) (dg\<lparr>m_last_node_id := i + 1\<rparr>)))"

definition add_edge :: "nat \<Rightarrow> node_id \<Rightarrow> node_id \<Rightarrow> dynamic_graph \<Rightarrow> edge_id \<times> dynamic_graph" where
  "add_edge time one two dg =
     (let i = m_last_edge_id dg
      in (i, add_modification time (Add_edge i one two) (dg\<lparr>m_last_edge_id := i + 1\<rparr>)))"

text \<open>The member functions \<open>remove_node\<close> and \<open>remove_edge\<close> of \<open>dynamic_graph\<close>.\<close>

definition dg_remove_node :: "nat \<Rightarrow> node_id \<Rightarrow> dynamic_graph \<Rightarrow> dynamic_graph" where
  "dg_remove_node time i dg = add_modification time (Rem_node i) dg"

definition dg_remove_edge :: "nat \<Rightarrow> edge_id \<Rightarrow> dynamic_graph \<Rightarrow> dynamic_graph" where
  "dg_remove_edge time i dg = add_modification time (Rem_edge i) dg"

text \<open>The inner loop of \<open>apply_modifications\<close>: the operations of one step, in order.\<close>

fun apply_operations :: "modification list \<Rightarrow> graph_state \<Rightarrow> error + graph_state" where
  "apply_operations [] new_state = Inr new_state"
| "apply_operations (op # ops) new_state =
     (case operation op new_state of
        Inl e \<Rightarrow> Inl e
      | Inr g \<Rightarrow> apply_operations ops g)"

text \<open>
  The outer loop of \<open>apply_modifications\<close>, with the states built so far as second
  argument: every step starts from a copy of the last state, or from the empty graph.
\<close>

fun apply_modifications :: "modification list list \<Rightarrow> graph_state list \<Rightarrow> error + graph_state list" where
  "apply_modifications [] states = Inr states"
| "apply_modifications (modif # mods) states =
     (case apply_operations modif (if states \<noteq> [] then last states else graph_empty) of
        Inl e \<Rightarrow> Inl e
      | Inr new_state \<Rightarrow> apply_modifications mods (states @ [new_state]))"

text \<open>
  The body of the outer loop of \<open>set_bool_values\<close> for the state at position \<open>i\<close>: every
  node and every edge of that state gets its two flags, read off the neighbouring states.
\<close>

definition set_bool_values_at :: "nat \<Rightarrow> graph_state list \<Rightarrow> graph_state" where
  "set_bool_values_at i states =
     (let g = states ! i
      in g\<lparr>m_nodes := (m_nodes g)\<lparr>vec :=
              map (\<lambda>node. node\<lparr>n_to_be_deleted :=
                                  (i < length states - 1 \<and> \<not> node_exists (states ! (i + 1)) (n_id node)),
                                n_newly_added :=
                                  (i > 0 \<and> \<not> node_exists (states ! (i - 1)) (n_id node))\<rparr>)
                (nodes g)\<rparr>,
           m_edges := (m_edges g)\<lparr>vec :=
              map (\<lambda>edge. edge\<lparr>e_to_be_deleted :=
                                  (i < length states - 1 \<and> \<not> edge_exists (states ! (i + 1)) (e_id edge)),
                                e_newly_added :=
                                  (i > 0 \<and> \<not> edge_exists (states ! (i - 1)) (e_id edge))\<rparr>)
                (edges g)\<rparr>\<rparr>)"

text \<open>
  \<open>set_bool_values\<close> updates the states in place, one after the other, so the state at
  position \<open>i\<close> is computed from the vector as the earlier rounds left it.
\<close>

definition set_bool_values :: "graph_state list \<Rightarrow> graph_state list" where
  "set_bool_values states =
     fold (\<lambda>i sts. sts[i := set_bool_values_at i sts]) [0..<length states] states"

text \<open>
  \<open>build()\<close>: clear the states, apply the queued modifications (which clears the queue),
  set the flags. An exception of a graph operation leaves \<open>build\<close>.
\<close>

definition build :: "dynamic_graph \<Rightarrow> error + dynamic_graph" where
  "build dg =
     (case apply_modifications (m_modifications dg) [] of
        Inl e \<Rightarrow> Inl e
      | Inr states \<Rightarrow> Inr (dg\<lparr>m_states := set_bool_values states, m_modifications := []\<rparr>))"

text \<open>
  Two vectors of states of the same length whose states agree, position by position, on
  which node ids and which edge ids exist.
\<close>

definition same_maps :: "graph_state list \<Rightarrow> graph_state list \<Rightarrow> bool" where
  "same_maps sts states \<longleftrightarrow> length sts = length states \<and>
     (\<forall>j < length states. node_exists (sts ! j) = node_exists (states ! j)
         \<and> edge_exists (sts ! j) = edge_exists (states ! j))"

text \<open>
  A dynamic graph with a node added at time 0, a node added at time 1, an edge between
  them added at time 2 and removed at time 3.
\<close>

definition build_example :: dynamic_graph where
  "build_example =
     dg_remove_edge 3 0 (snd (add_edge 2 0 1 (snd (add_node 1 (snd (add_node 0 dynamic_graph_default))))))"

section \<open>interpolator.h: phases and their validation\<close>







section \<open>interpolator.h: the frames of the animation\<close>

text \<open>The struct \<open>frame_state\<close> with its default member initialisers.\<close>

record frame_state =
  interpolation :: real
  alpha :: real
  adding :: bool
  added :: bool
  deleting :: bool
  deleted :: bool























section \<open>fruchterman_reingold.h: the border force\<close>

text \<open>
  The data members of class template \<open>fruchterman_reingold\<close> that the force computation
  reads, and its two constants.
\<close>

record fruchterman_reingold =
  m_border_force :: real
  m_k_coeff :: real
  m_use_global_repulsion :: bool

definition fruchterman_reingold_default :: fruchterman_reingold where
  "fruchterman_reingold_default =
     \<lparr>m_border_force = 0.6, m_k_coeff = 0.6, m_use_global_repulsion = False\<rparr>"

definition SmallOffset :: real where
  "SmallOffset = 0.001"

definition UnitCoeff :: real where
  "UnitCoeff = 0.68"

text \<open>
  \<open>border_displacement(float k, float coord, float size)\<close> with its local lambda
  \<open>displace\<close>.
\<close>

definition displace :: "fruchterman_reingold \<Rightarrow> real \<Rightarrow> real \<Rightarrow> real \<Rightarrow> real" where
  "displace self k coord size' =
     (k * k * m_border_force self) / (\<bar>size' * 0.5 - coord\<bar> + \<bar>size' * SmallOffset\<bar>)"

definition border_displacement :: "fruchterman_reingold \<Rightarrow> real \<Rightarrow> real \<Rightarrow> real \<Rightarrow> real" where
  "border_displacement self k coord size' =
     displace self k coord (- size') - displace self k coord size'"

text \<open>
  \<open>reset_and_border\<close>: the loop writes \<open>disp[i]\<close> for every position \<open>i\<close> of the node
  vector, with the calls \<open>border_displacement(k, width, pos.x)\<close> and
  \<open>border_displacement(k, height, pos.y)\<close>.
\<close>

definition reset_and_border :: "fruchterman_reingold \<Rightarrow> ('a node_scheme, 'e) graph \<Rightarrow> real \<Rightarrow> real \<Rightarrow> real
    \<Rightarrow> coords list \<Rightarrow> coords list" where
  "reset_and_border self graph width height k disp =
     fold (\<lambda>i disp.
             disp[i := \<lparr>coords_x = border_displacement self k width
                                     (coords_x (n_coords (nodes graph ! i))),
                         coords_y = border_displacement self k height
                                     (coords_y (n_coords (nodes graph ! i)))\<rparr>])
       [0..<length (nodes graph)] disp"

text \<open>
  The beginning of \<open>iteration\<close>: \<open>k\<close> is computed from the canvas and the number of nodes,
  the vector of displacements is created with one default entry per node, and
  \<open>reset_and_border\<close> fills it. (The forces between nodes and along edges are added to
  these displacements afterwards.)
\<close>

definition iteration_k :: "fruchterman_reingold \<Rightarrow> ('a node_scheme, 'e) graph \<Rightarrow> real \<Rightarrow> real \<Rightarrow> real" where
  "iteration_k self graph width height =
     (let area = width * height
      in m_k_coeff self * sqrt (area / real (length (nodes graph))))"

definition iteration_reset_and_border :: "fruchterman_reingold \<Rightarrow> ('a node_scheme, 'e) graph \<Rightarrow> real \<Rightarrow> real
    \<Rightarrow> coords list" where
  "iteration_reset_and_border self graph width height =
     reset_and_border self graph width height (iteration_k self graph width height)
       (replicate (length (nodes graph)) coords_default)"

text \<open>
  The border force as the specification words it, to be compared with what
  \<open>reset_and_border\<close> computes: at coordinate \<open>c\<close> on an axis of the canvas of extent
  \<open>size\<close>, each of the two borders at \<open>\<plusminus> size / 2\<close> repels with strength
  \<open>border_force * k\<^sup>2 / (|border - c| + |size * small_offset|)\<close>; the border at
  \<open>- size / 2\<close> pushes in the positive and the border at \<open>size / 2\<close> in the negative
  direction.
\<close>

definition border_force_spec :: "real \<Rightarrow> real \<Rightarrow> real \<Rightarrow> real \<Rightarrow> real" where
  "border_force_spec border_force k size' c =
     border_force * k\<^sup>2 / (\<bar>- size' / 2 - c\<bar> + \<bar>size' * 0.001\<bar>)
     - border_force * k\<^sup>2 / (\<bar>size' / 2 - c\<bar> + \<bar>size' * 0.001\<bar>)"

text \<open>A graph with the single node \<open>0\<close> at position \<open>(0.5, 0)\<close>.\<close>

definition one_node_graph :: graph_state where
  "one_node_graph =
     push_node ((new_node 0)\<lparr>n_coords := \<lparr>coords_x = 0.5, coords_y = 0\<rparr>\<rparr>) graph_empty"

section \<open>cooling.h and foresighted_layout.h: the tolerance pass\<close>

record cooling =
  iterations :: nat
  start_temperature :: real
  anneal :: "real \<Rightarrow> real"

text \<open>
  The template parameter \<open>StaticLayout\<close> of \<open>foresighted_layout\<close>, as far as the tolerance
  pass uses it: its member functions \<open>iteration(graph, width, height, temperature)\<close>, which
  changes the graph it is given, and \<open>relative_unit(width, height)\<close>.
\<close>

record static_layout =
  sl_iteration :: "graph_state \<Rightarrow> real \<Rightarrow> real \<Rightarrow> real \<Rightarrow> graph_state"
  sl_relative_unit :: "real \<Rightarrow> real \<Rightarrow> real"

record foresighted_layout =
  m_tolerance :: real
  m_canvas_width :: real
  m_canvas_height :: real
  m_center :: coords
  m_cooling :: cooling
  m_static_layout :: static_layout
  m_relative_distance :: bool

text \<open>
  The result of a \<open>float\<close> computation that may be NaN: \<open>None\<close> is NaN. A comparison
  with NaN is false.
\<close>

fun float_less :: "real option \<Rightarrow> real \<Rightarrow> bool" where
  "float_less None t = False"
| "float_less (Some r) t = (r < t)"

text \<open>
  \<open>max_nodes\<close>: \<open>std::max_element\<close> keeps the first state with the most nodes. On an
  empty vector the source dereferences the end iterator; the model has no value there.
\<close>

fun max_nodes :: "graph_state list \<Rightarrow> nat option" where
  "max_nodes [] = None"
| "max_nodes (s # states) =
     Some (fold (\<lambda>g largest. if largest < length (nodes g) then length (nodes g) else largest)
             states (length (nodes s)))"

text \<open>
  \<open>distance\<close>: the loop over the nodes of \<open>one\<close> accumulates \<open>result\<close> and \<open>count\<close>. In
  relative mode the result is divided by \<open>count\<close>, which gives NaN (\<open>0 / 0\<close>) when no node
  is shared.
\<close>

definition distance_step :: "graph_state \<Rightarrow> node \<Rightarrow> real \<times> nat \<Rightarrow> real \<times> nat" where
  "distance_step two node acc =
     (if node_exists two (n_id node)
      then (case node_at two (n_id node) of
              Inl e \<Rightarrow> acc
            | Inr other \<Rightarrow>
                (let diff_x = coords_x (n_coords node) - coords_x (n_coords other);
                     diff_y = coords_y (n_coords node) - coords_y (n_coords other)
                 in (fst acc + sqrt (diff_x * diff_x + diff_y * diff_y), snd acc + 1)))
      else acc)"

definition distance :: "foresighted_layout \<Rightarrow> graph_state \<Rightarrow> graph_state \<Rightarrow> real option" where
  "distance self one two =
     (let acc = fold (distance_step two) (nodes one) (0, 0)
      in if m_relative_distance self
         then (if snd acc = 0 then None else Some (fst acc / real (snd acc)))
         else Some (fst acc))"

text \<open>
  The condition under which the tolerance pass, sequential or parallel, takes the iterated
  copy of the state at position \<open>s\<close>: \<open>left\<close> and \<open>right\<close> are the neighbouring states the
  copy is compared with, \<open>size\<close> the number of states.
\<close>

definition within_tolerance :: "foresighted_layout \<Rightarrow> nat \<Rightarrow> nat \<Rightarrow> graph_state \<Rightarrow> graph_state
    \<Rightarrow> graph_state \<Rightarrow> real \<Rightarrow> bool" where
  "within_tolerance self size' s copy left right tolerance_value \<longleftrightarrow>
     (s = 0 \<or> float_less (distance self copy left) tolerance_value)
     \<and> (s \<ge> size' - 1 \<or> float_less (distance self copy right) tolerance_value)"

text \<open>
  The first lines of \<open>tolerance\<close>, in both classes: in absolute mode the tolerance is
  multiplied by the relative unit of the static layout times the largest number of nodes.
\<close>

definition scaled_tolerance :: "foresighted_layout \<Rightarrow> graph_state list \<Rightarrow> real \<Rightarrow> real \<Rightarrow> real
    \<Rightarrow> real option" where
  "scaled_tolerance self states width height tolerance_value =
     (if \<not> m_relative_distance self
      then (case max_nodes states of
              None \<Rightarrow> None
            | Some m \<Rightarrow>
                Some (tolerance_value
                        * (sl_relative_unit (m_static_layout self) width height * real m)))
      else Some tolerance_value)"

text \<open>
  \<open>foresighted_layout::tolerance\<close>. The body of the inner loop for position \<open>s\<close>: copy the
  state, run one iteration of the static layout on the copy, and move the copy into the
  vector if it is within the tolerance of both neighbours in the vector as it is now.
\<close>

definition tolerance_state :: "foresighted_layout \<Rightarrow> real \<Rightarrow> real \<Rightarrow> real \<Rightarrow> real \<Rightarrow> nat
    \<Rightarrow> graph_state list \<Rightarrow> graph_state list" where
  "tolerance_state self width height temp tolerance_value s states =
     (let copy = sl_iteration (m_static_layout self) (states ! s) width height temp
      in if within_tolerance self (length states) s copy (states ! (s - 1)) (states ! (s + 1))
              tolerance_value
         then states[s := copy]
         else states)"

text \<open>The inner loop, over all positions, and the outer loop, which anneals the temperature.\<close>

definition tolerance_round :: "foresighted_layout \<Rightarrow> real \<Rightarrow> real \<Rightarrow> real \<Rightarrow> real
    \<Rightarrow> graph_state list \<Rightarrow> graph_state list" where
  "tolerance_round self width height temp tolerance_value states =
     fold (tolerance_state self width height temp tolerance_value) [0..<length states] states"

fun tolerance_rounds :: "foresighted_layout \<Rightarrow> real \<Rightarrow> real \<Rightarrow> real \<Rightarrow> nat \<Rightarrow> real
    \<Rightarrow> graph_state list \<Rightarrow> graph_state list" where
  "tolerance_rounds self width height tolerance_value 0 temp states = states"
| "tolerance_rounds self width height tolerance_value (Suc n) temp states =
     tolerance_rounds self width height tolerance_value n (anneal (m_cooling self) temp)
       (tolerance_round self width height temp tolerance_value states)"

definition tolerance :: "foresighted_layout \<Rightarrow> graph_state list \<Rightarrow> real \<Rightarrow> real \<Rightarrow> real
    \<Rightarrow> graph_state list option" where
  "tolerance self states width height tolerance_value =
     (case scaled_tolerance self states width height tolerance_value of
        None \<Rightarrow> None
      | Some tol \<Rightarrow>
          Some (tolerance_rounds self width height tol (iterations (m_cooling self))
                  (start_temperature (m_cooling self)) states))"

text \<open>
  The temperature of round \<open>r\<close> of the pass, and the vector of states at the moment when
  round \<open>r\<close> reaches position \<open>s\<close>: the rounds before \<open>r\<close> are complete, and in round \<open>r\<close>
  the positions before \<open>s\<close> have been visited.
\<close>

definition temp_at :: "foresighted_layout \<Rightarrow> nat \<Rightarrow> real" where
  "temp_at self r = (anneal (m_cooling self) ^^ r) (start_temperature (m_cooling self))"

definition tolerance_before :: "foresighted_layout \<Rightarrow> real \<Rightarrow> real \<Rightarrow> real \<Rightarrow> nat \<Rightarrow> nat
    \<Rightarrow> graph_state list \<Rightarrow> graph_state list" where
  "tolerance_before self width height tolerance_value r s states =
     fold (tolerance_state self width height (temp_at self r) tolerance_value) [0..<s]
       (tolerance_rounds self width height tolerance_value r (start_temperature (m_cooling self)) states)"





section \<open>foresighted_parallel.h: the parallel tolerance pass\<close>

text \<open>
  What the threads of the pass share: the vector of states, the vector of copies, the
  vector \<open>apply\<close> and the temperature.
\<close>

record shared =
  p_states :: "graph_state list"
  p_copies :: "graph_state list"
  p_apply :: "bool list"
  p_temp :: real

text \<open>
  The positions of one thread: \<open>for (i = begin; i < states.size(); i += step)\<close>, from the
  running index \<open>i\<close> on. \<open>for_each_interleaved\<close> passes the number of threads, which is at
  least one, as \<open>step\<close>.
\<close>

function interleaved :: "nat \<Rightarrow> nat \<Rightarrow> nat \<Rightarrow> nat list" where
  "interleaved i step n = (if i < n \<and> 0 < step then i # interleaved (i + step) step n else [])"
  by pat_completeness auto
termination
  by (relation "measure (\<lambda>(i, step, n). n - i)") auto

text \<open>
  The two loops a thread runs at the beginning of a round, before the first barrier: take
  over the copies that the last round accepted and refresh the other copies, then run one
  iteration of the static layout on each copy.
\<close>

definition reconcile :: "nat \<Rightarrow> shared \<Rightarrow> shared" where
  "reconcile i sh =
     (if p_apply sh ! i then sh\<lparr>p_states := (p_states sh)[i := p_copies sh ! i]\<rparr>
      else sh\<lparr>p_copies := (p_copies sh)[i := p_states sh ! i]\<rparr>)"

definition iterate_copy :: "foresighted_layout \<Rightarrow> real \<Rightarrow> real \<Rightarrow> nat \<Rightarrow> shared \<Rightarrow> shared" where
  "iterate_copy self width height i sh =
     sh\<lparr>p_copies := (p_copies sh)
           [i := sl_iteration (m_static_layout self) (p_copies sh ! i) width height (p_temp sh)]\<rparr>"

definition thread_iterate :: "foresighted_layout \<Rightarrow> real \<Rightarrow> real \<Rightarrow> nat \<Rightarrow> nat \<Rightarrow> shared \<Rightarrow> shared" where
  "thread_iterate self width height begin step sh =
     fold (iterate_copy self width height) (interleaved begin step (length (p_states sh)))
       (fold reconcile (interleaved begin step (length (p_states sh))) sh)"

text \<open>
  The lambda \<open>get\<close> and the sequential scan that the first thread runs between the two
  barriers: it decides for every position whether the copy is to be taken, and anneals the
  temperature.
\<close>

definition get :: "shared \<Rightarrow> nat \<Rightarrow> graph_state" where
  "get sh i = (if p_apply sh ! i then p_copies sh ! i else p_states sh ! i)"

definition decide :: "foresighted_layout \<Rightarrow> real \<Rightarrow> nat \<Rightarrow> shared \<Rightarrow> shared" where
  "decide self tolerance_value i sh =
     (let sh1 = sh\<lparr>p_apply := (p_apply sh)[i := False]\<rparr>
      in if within_tolerance self (length (p_states sh1)) i (p_copies sh1 ! i)
              (get sh1 (i - 1)) (p_states sh1 ! (i + 1)) tolerance_value
         then sh1\<lparr>p_apply := (p_apply sh1)[i := True]\<rparr>
         else sh1)"

definition first_thread_scan :: "foresighted_layout \<Rightarrow> real \<Rightarrow> shared \<Rightarrow> shared" where
  "first_thread_scan self tolerance_value sh =
     (let sh1 = fold (decide self tolerance_value) [0..<length (p_states sh)] sh
      in sh1\<lparr>p_temp := anneal (m_cooling self) (p_temp sh1)\<rparr>)"

text \<open>
  One round of the pass with \<open>threads\<close> threads. Before the first barrier the threads work
  on disjoint positions; the model runs them one after the other, in the order of their
  numbers. Between the barriers only the first thread works.
\<close>

definition parallel_round :: "foresighted_layout \<Rightarrow> nat \<Rightarrow> real \<Rightarrow> real \<Rightarrow> real \<Rightarrow> shared \<Rightarrow> shared" where
  "parallel_round self threads width height tolerance_value sh =
     first_thread_scan self tolerance_value
       (fold (\<lambda>begin. thread_iterate self width height begin threads) [0..<threads] sh)"

text \<open>
  \<open>parallel_foresighted_layout::tolerance\<close>: the copies start as a copy of the states,
  \<open>apply\<close> as all false; after the rounds the function returns, and the vector of states
  is the result.
\<close>

definition parallel_tolerance :: "foresighted_layout \<Rightarrow> nat \<Rightarrow> graph_state list \<Rightarrow> real \<Rightarrow> real \<Rightarrow> real
    \<Rightarrow> graph_state list option" where
  "parallel_tolerance self threads states width height tolerance_value =
     (case scaled_tolerance self states width height tolerance_value of
        None \<Rightarrow> None
      | Some tol \<Rightarrow>
          Some (p_states
                  ((parallel_round self threads width height tol ^^ iterations (m_cooling self))
                     \<lparr>p_states = states, p_copies = states,
                      p_apply = replicate (length states) False,
                      p_temp = start_temperature (m_cooling self)\<rparr>)))"

text \<open>
  An instance for the template parameter: a static layout whose iteration moves every node
  by the temperature along the x axis, and whose relative unit is 1. With it, a layout
  object with tolerance \<open>0.04\<close> on the unit canvas, in relative mode, after
  \<open>set_cooling(cooling(2, 0.4, t \<mapsto> t * 0.977))\<close>.
\<close>

definition shift_layout :: static_layout where
  "shift_layout =
     \<lparr>sl_iteration = (\<lambda>g width height temperature.
         g\<lparr>m_nodes := (m_nodes g)\<lparr>vec :=
              map (\<lambda>n. n\<lparr>n_coords := \<lparr>coords_x = coords_x (n_coords n) + temperature,
                                        coords_y = coords_y (n_coords n)\<rparr>\<rparr>)
                (nodes g)\<rparr>\<rparr>),
      sl_relative_unit = (\<lambda>width height. 1)\<rparr>"

definition two_rounds_layout :: foresighted_layout where
  "two_rounds_layout =
     \<lparr>m_tolerance = 0.04, m_canvas_width = 1, m_canvas_height = 1, m_center = coords_default,
      m_cooling = \<lparr>iterations = 2, start_temperature = 0.4, anneal = (\<lambda>t. t * 0.977)\<rparr>,
      m_static_layout = shift_layout, m_relative_distance = True\<rparr>"

text \<open>The x coordinates of the nodes of every state of a result of the tolerance pass.\<close>

definition xs_of :: "graph_state list option \<Rightarrow> real list list option" where
  "xs_of result = map_option (map (\<lambda>g. map (\<lambda>n. coords_x (n_coords n)) (nodes g))) result"

section \<open>live_set.h, partitions.h, mapped_graph.h\<close>

text \<open>
  Class \<open>live_set\<close> is the vector \<open>m_values\<close> of time steps. Its set operations call
  \<open>std::set_intersection\<close> and \<open>std::set_union\<close>, which walk two sorted ranges in step;
  the two functions below are these walks as the C++ standard library defines them.
\<close>

type_synonym live_set = "nat list"

definition add :: "nat \<Rightarrow> live_set \<Rightarrow> live_set" where
  "add time m_values = m_values @ [time]"

fun set_intersection :: "nat list \<Rightarrow> nat list \<Rightarrow> nat list" where
  "set_intersection [] bs = []"
| "set_intersection (a # as) [] = []"
| "set_intersection (a # as) (b # bs) =
     (if a < b then set_intersection as (b # bs)
      else if b < a then set_intersection (a # as) bs
      else a # set_intersection as bs)"

fun set_union :: "nat list \<Rightarrow> nat list \<Rightarrow> nat list" where
  "set_union [] bs = bs"
| "set_union (a # as) [] = a # as"
| "set_union (a # as) (b # bs) =
     (if b < a then b # set_union (a # as) bs
      else if a < b then a # set_union as (b # bs)
      else a # set_union as bs)"

definition intersection :: "live_set \<Rightarrow> live_set \<Rightarrow> live_set" where
  "intersection m_values other = set_intersection m_values other"

definition setunion :: "live_set \<Rightarrow> live_set \<Rightarrow> live_set" where
  "setunion m_values other = set_union m_values other"

definition join :: "live_set \<Rightarrow> live_set \<Rightarrow> live_set" where
  "join m_values other = setunion m_values other"

definition empty :: "live_set \<Rightarrow> bool" where
  "empty m_values \<longleftrightarrow> m_values = []"

text \<open>
  The classes \<open>node_partition\<close> and \<open>edge_partition\<close>: a node or edge with the member
  \<open>m_live_time\<close>, which is empty after construction.
\<close>

record node_partition = node +
  np_live_time :: live_set

record edge_partition = basic_edge +
  ep_live_time :: live_set

definition new_node_partition :: "node_id \<Rightarrow> node_partition" where
  "new_node_partition i = node.extend (new_node i) \<lparr>np_live_time = []\<rparr>"

definition new_edge_partition :: "edge_id \<Rightarrow> node_id \<Rightarrow> node_id \<Rightarrow> edge_partition" where
  "new_edge_partition i one two = basic_edge.extend (new_edge i one two) \<lparr>ep_live_time = []\<rparr>"

text \<open>The member functions \<open>add_live_time\<close> of the two classes.\<close>

definition np_add_live_time :: "live_set \<Rightarrow> node_partition \<Rightarrow> node_partition" where
  "np_add_live_time node_live p = p\<lparr>np_live_time := join (np_live_time p) node_live\<rparr>"

definition ep_add_live_time :: "live_set \<Rightarrow> edge_partition \<Rightarrow> edge_partition" where
  "ep_add_live_time edge_live p = p\<lparr>ep_live_time := join (ep_live_time p) edge_live\<rparr>"

type_synonym graph_partitioning = "(node_partition, edge_partition) graph"

text \<open>
  Class \<open>mapped_graph\<close>: a partitioning graph and the two tables of aliases. \<open>node_at\<close>
  looks an id up in the table first and in the graph second.
\<close>

record mapped_graph =
  m_graph :: graph_partitioning
  m_node_map :: "node_id \<rightharpoonup> node_id"
  m_edge_map :: "edge_id \<rightharpoonup> edge_id"

definition mapped_graph_default :: mapped_graph where
  "mapped_graph_default = \<lparr>m_graph = graph_empty, m_node_map = Map.empty, m_edge_map = Map.empty\<rparr>"

definition mapped_node_at :: "mapped_graph \<Rightarrow> node_id \<Rightarrow> error + node_partition" where
  "mapped_node_at self i =
     (case m_node_map self i of
        Some target \<Rightarrow> node_at (m_graph self) target
      | None \<Rightarrow> node_at (m_graph self) i)"

definition map_node :: "node_id \<Rightarrow> node_id \<Rightarrow> mapped_graph \<Rightarrow> mapped_graph" where
  "map_node node target self = self\<lparr>m_node_map := emplace (m_node_map self) node target\<rparr>"

section \<open>foresighted_layout.h: live times, supergraph and GAP\<close>

text \<open>
  \<open>node_live_times\<close> and \<open>edge_live_times\<close>: for every state \<open>t\<close>, in order, and every
  node (edge) of it, \<open>result[id].add(t)\<close>, where \<open>result[id]\<close> creates an empty live set for
  an id that has none yet.
\<close>

definition add_live :: "nat \<Rightarrow> nat \<Rightarrow> (nat \<rightharpoonup> live_set) \<Rightarrow> (nat \<rightharpoonup> live_set)" where
  "add_live t i result = result(i \<mapsto> add t (case result i of None \<Rightarrow> [] | Some l \<Rightarrow> l))"

definition node_live_times :: "graph_state list \<Rightarrow> (node_id \<rightharpoonup> live_set)" where
  "node_live_times states =
     fold (\<lambda>t result. fold (\<lambda>node. add_live t (n_id node)) (nodes (states ! t)) result)
       [0..<length states] Map.empty"

definition edge_live_times :: "graph_state list \<Rightarrow> (edge_id \<rightharpoonup> live_set)" where
  "edge_live_times states =
     fold (\<lambda>t result. fold (\<lambda>edge. add_live t (e_id edge)) (edges (states ! t)) result)
       [0..<length states] Map.empty"

text \<open>
  \<open>calculate_supergraph\<close>: for every state, \<open>emplace_node(node.id())\<close> for its nodes and
  then \<open>emplace_edge(edge.id(), edge.one_id(), edge.two_id())\<close> for its edges.
\<close>

fun emplace_edges :: "edge list \<Rightarrow> graph_state \<Rightarrow> error + graph_state" where
  "emplace_edges [] supergraph = Inr supergraph"
| "emplace_edges (e # es) supergraph =
     (case push_edge (new_edge (e_id e) (e_one e) (e_two e)) supergraph of
        Inl err \<Rightarrow> Inl err
      | Inr g \<Rightarrow> emplace_edges es g)"

fun supergraph_from :: "graph_state list \<Rightarrow> graph_state \<Rightarrow> error + graph_state" where
  "supergraph_from [] supergraph = Inr supergraph"
| "supergraph_from (state # animation) supergraph =
     (case emplace_edges (edges state)
             (fold (\<lambda>node. push_node (new_node (n_id node))) (nodes state) supergraph) of
        Inl err \<Rightarrow> Inl err
      | Inr g \<Rightarrow> supergraph_from animation g)"

definition calculate_supergraph :: "graph_state list \<Rightarrow> error + graph_state" where
  "calculate_supergraph animation = supergraph_from animation graph_empty"

text \<open>
  \<open>calculate_gap\<close>, the loop over the nodes of the supergraph. The inner loop looks for the
  first partition whose live time has an empty intersection with the live set of the node;
  \<open>find_partition\<close> is its position.
\<close>

fun find_partition :: "node_partition list \<Rightarrow> live_set \<Rightarrow> nat option" where
  "find_partition [] node_live = None"
| "find_partition (part # rest) node_live =
     (if empty (intersection (np_live_time part) node_live) then Some 0
      else map_option Suc (find_partition rest node_live))"

text \<open>
  The body of the loop for one node: extend the partition found and make the node an alias
  of it, or push a partition node with the id of the node and add the live set to the node
  that \<open>push_node\<close> returns.
\<close>

definition gap_node :: "node_id \<Rightarrow> live_set \<Rightarrow> mapped_graph \<Rightarrow> mapped_graph" where
  "gap_node i node_live gap =
     (let g = m_graph gap
      in case find_partition (nodes g) node_live of
           Some j \<Rightarrow>
             map_node i (n_id (nodes g ! j))
               (gap\<lparr>m_graph := g\<lparr>m_nodes := (m_nodes g)\<lparr>vec :=
                       (nodes g)[j := np_add_live_time node_live (nodes g ! j)]\<rparr>\<rparr>\<rparr>)
         | None \<Rightarrow>
             (let added = push_node_ref (new_node_partition i) g;
                  g1 = push_node (new_node_partition i) g
              in gap\<lparr>m_graph := g1\<lparr>m_nodes := (m_nodes g1)\<lparr>vec :=
                        (nodes g1)[added := np_add_live_time node_live (nodes g1 ! added)]\<rparr>\<rparr>\<rparr>))"

fun gap_nodes :: "node list \<Rightarrow> (node_id \<rightharpoonup> live_set) \<Rightarrow> mapped_graph \<Rightarrow> error + mapped_graph" where
  "gap_nodes [] nodes_live gap = Inr gap"
| "gap_nodes (node # rest) nodes_live gap =
     (case nodes_live (n_id node) of
        None \<Rightarrow> Inl out_of_range
      | Some node_live \<Rightarrow> gap_nodes rest nodes_live (gap_node (n_id node) node_live gap))"

text \<open>
  The loop over the edges of the supergraph: the partition edge connects the partition
  nodes of the two endpoints and gets the live set of the edge.
\<close>

definition gap_edge :: "edge \<Rightarrow> (edge_id \<rightharpoonup> live_set) \<Rightarrow> mapped_graph \<Rightarrow> error + mapped_graph" where
  "gap_edge edge edges_live gap =
     (case mapped_node_at gap (e_one edge) of
        Inl err \<Rightarrow> Inl err
      | Inr one \<Rightarrow>
          (case mapped_node_at gap (e_two edge) of
             Inl err \<Rightarrow> Inl err
           | Inr two \<Rightarrow>
               (let g = m_graph gap;
                    new_edge = new_edge_partition (e_id edge) (n_id one) (n_id two);
                    added = push_edge_ref new_edge g
                in case push_edge new_edge g of
                     Inl err \<Rightarrow> Inl err
                   | Inr g1 \<Rightarrow>
                       (case edges_live (e_id edge) of
                          None \<Rightarrow> Inl out_of_range
                        | Some edge_live \<Rightarrow>
                            Inr (gap\<lparr>m_graph := g1\<lparr>m_edges := (m_edges g1)\<lparr>vec :=
                                   (edges g1)[added := ep_add_live_time edge_live (edges g1 ! added)]\<rparr>\<rparr>\<rparr>)))))"

fun gap_edges :: "edge list \<Rightarrow> (edge_id \<rightharpoonup> live_set) \<Rightarrow> mapped_graph \<Rightarrow> error + mapped_graph" where
  "gap_edges [] edges_live gap = Inr gap"
| "gap_edges (edge # rest) edges_live gap =
     (case gap_edge edge edges_live gap of
        Inl err \<Rightarrow> Inl err
      | Inr gap1 \<Rightarrow> gap_edges rest edges_live gap1)"

definition calculate_gap :: "graph_state \<Rightarrow> (node_id \<rightharpoonup> live_set) \<Rightarrow> (edge_id \<rightharpoonup> live_set)
    \<Rightarrow> error + mapped_graph" where
  "calculate_gap supergraph nodes_live edges_live =
     (case gap_nodes (nodes supergraph) nodes_live mapped_graph_default of
        Inl err \<Rightarrow> Inl err
      | Inr gap \<Rightarrow> gap_edges (edges supergraph) edges_live gap)"

text \<open>
  The partition node that the GAP assigns to a node id: the id of the node that \<open>node_at\<close>
  of the mapped graph returns, if it returns one.
\<close>

definition partition_of :: "mapped_graph \<Rightarrow> node_id \<Rightarrow> node_id option" where
  "partition_of gap i = (case mapped_node_at gap i of Inl err \<Rightarrow> None | Inr p \<Rightarrow> Some (n_id p))"

text \<open>
  The live set of an id as a set, and the partition node an id stands for in the mapped
  graph: its alias, if it has one, and the id itself otherwise.
\<close>

definition live :: "(nat \<rightharpoonup> live_set) \<Rightarrow> nat \<Rightarrow> nat set" where
  "live nodes_live i = (case nodes_live i of None \<Rightarrow> {} | Some l \<Rightarrow> set l)"

definition rep :: "mapped_graph \<Rightarrow> node_id \<Rightarrow> node_id" where
  "rep gap i = (case m_node_map gap i of Some target \<Rightarrow> target | None \<Rightarrow> i)"

text \<open>
  The invariant of the loop over the nodes in \<open>calculate_gap\<close>, with \<open>P\<close> the ids of the
  nodes handled so far: the node container is consistent; partition nodes and aliases are
  among the handled ids, and a partition node has no alias; every handled id stands for a
  partition node; the live time of a partition node is sorted and is the union of the live
  sets of the ids that stand for it; two different ids that stand for the same partition
  node have disjoint live sets.
\<close>

definition gap_inv :: "(node_id \<rightharpoonup> live_set) \<Rightarrow> node_id set \<Rightarrow> mapped_graph \<Rightarrow> bool" where
  "gap_inv nl P gap \<longleftrightarrow>
     container_ok n_id (m_nodes (m_graph gap))
     \<and> n_id ` set (nodes (m_graph gap)) \<subseteq> P
     \<and> dom (m_node_map gap) \<subseteq> P
     \<and> (\<forall>p \<in> set (nodes (m_graph gap)). m_node_map gap (n_id p) = None)
     \<and> (\<forall>a \<in> P. rep gap a \<in> n_id ` set (nodes (m_graph gap)))
     \<and> (\<forall>p \<in> set (nodes (m_graph gap)).
           sorted (np_live_time p)
           \<and> set (np_live_time p) = (\<Union>a \<in> {a \<in> P. rep gap a = n_id p}. live nl a))
     \<and> (\<forall>a \<in> P. \<forall>b \<in> P. a \<noteq> b \<and> rep gap a = rep gap b \<longrightarrow> live nl a \<inter> live nl b = {})"

text \<open>Every live set recorded is sorted and holds time steps up to \<open>t\<close> only.\<close>

definition lives_upto :: "nat \<Rightarrow> (nat \<rightharpoonup> live_set) \<Rightarrow> bool" where
  "lives_upto t result \<longleftrightarrow> (\<forall>i l. result i = Some l \<longrightarrow> sorted l \<and> (\<forall>x \<in> set l. x \<le> t))"

text \<open>
  A dynamic graph with the nodes \<open>0\<close> and \<open>2\<close> added at time 0, and at time 1 node \<open>0\<close>
  removed and node \<open>1\<close> added.
\<close>

definition gap_example :: dynamic_graph where
  "gap_example = snd (add_node 0 (snd (add_node 1 (dg_remove_node 1 0 (snd (add_node 0 dynamic_graph_default))))))"

chapter \<open>Properties\<close>

section \<open>The phase validation of the interpolator\<close>







section \<open>The invariant of the containers of a graph\<close>

lemma container_ok_empty [simp]: "container_ok ident container_empty"
  by (simp add: container_ok_def container_empty_def)

lemma container_ok_dom:
  assumes "container_ok ident c"
  shows "map' c i \<noteq> None \<longleftrightarrow> i \<in> ident ` set (vec c)"
proof
  assume "map' c i \<noteq> None"
  then obtain k where "map' c i = Some k" by auto
  with assms have "k < length (vec c)" "ident (vec c ! k) = i"
    by (simp_all add: container_ok_def)
  then show "i \<in> ident ` set (vec c)" using nth_mem by force
next
  assume "i \<in> ident ` set (vec c)"
  then obtain k where "k < length (vec c)" "ident (vec c ! k) = i"
    by (auto simp: in_set_conv_nth)
  with assms have "map' c i = Some k" by (simp add: container_ok_def)
  then show "map' c i \<noteq> None" by simp
qed

lemma container_ok_distinct:
  assumes "container_ok ident c" shows "distinct (map ident (vec c))"
proof -
  have "j = k" if "j < length (vec c)" "k < length (vec c)" "ident (vec c ! j) = ident (vec c ! k)" for j k
  proof -
    from assms that have "map' c (ident (vec c ! k)) = Some j" "map' c (ident (vec c ! k)) = Some k"
      by (simp_all add: container_ok_def)
    then show ?thesis by simp
  qed
  then show ?thesis by (auto simp: distinct_conv_nth)
qed

lemma emplace_fresh: "m k = None \<Longrightarrow> emplace m k v = m(k \<mapsto> v)"
  by (simp add: emplace_def)

lemma container_ok_push:
  assumes "container_ok ident c" and "map' c (ident n) = None"
  shows "container_ok ident \<lparr>vec = vec c @ [n], map' = emplace (map' c) (ident n) (length (vec c))\<rparr>"
proof -
  have ok: "map' c i = Some k \<longleftrightarrow> k < length (vec c) \<and> ident (vec c ! k) = i" for i k
    using assms(1) by (simp add: container_ok_def)
  have fresh: "ident (vec c ! k) \<noteq> ident n" if "k < length (vec c)" for k
    using ok [of "ident n" k] assms(2) that by simp
  have "((map' c)(ident n \<mapsto> length (vec c))) i = Some k
          \<longleftrightarrow> k < Suc (length (vec c)) \<and> ident ((vec c @ [n]) ! k) = i" for i k
  proof (cases "k < length (vec c)")
    case True
    then show ?thesis using fresh [of k] ok [of i k] by (auto simp: nth_append)
  next
    case False
    then show ?thesis using ok [of i k] by (auto simp: nth_append less_Suc_eq)
  qed
  then show ?thesis
    using assms(2) by (simp add: container_ok_def emplace_fresh)
qed

lemma reestablish_map_prefix:
  assumes "distinct (map ident v)" and "n \<le> length v"
    and f: "f = (\<lambda>i m. m(ident (v ! i) \<mapsto> i))"
  shows "fold f [0..<n] Map.empty i = Some k \<longleftrightarrow> k < n \<and> ident (v ! k) = i"
  using assms(2)
proof (induction n arbitrary: k)
  case 0
  then show ?case by simp
next
  case (Suc n)
  define m where "m = fold f [0..<n] Map.empty"
  have IH: "m i = Some k \<longleftrightarrow> k < n \<and> ident (v ! k) = i" for k
    unfolding m_def using Suc.prems by (intro Suc.IH) simp
  have inj: "k = n" if "k \<le> n" "ident (v ! k) = ident (v ! n)" for k
  proof (rule ccontr)
    assume "k \<noteq> n"
    moreover have "k < length (map ident v)" "n < length (map ident v)"
      using Suc.prems that(1) by simp_all
    ultimately have "map ident v ! k \<noteq> map ident v ! n"
      using assms(1) by (simp only: nth_eq_iff_index_eq not_False_eq_True)
    then show False using that Suc.prems by simp
  qed
  have unfold: "fold f [0..<Suc n] Map.empty = f n m"
    by (simp add: m_def)
  have "f n m i = Some k \<longleftrightarrow> k < Suc n \<and> ident (v ! k) = i"
  proof (cases "i = ident (v ! n)")
    case True
    then show ?thesis using inj [of k] by (auto simp: f)
  next
    case False
    then show ?thesis using IH [of k] by (auto simp: f less_Suc_eq)
  qed
  then show ?case by (simp only: unfold)
qed

lemma container_ok_reestablish:
  assumes "distinct (map ident v)"
  shows "container_ok ident \<lparr>vec = v, map' = reestablish_map ident v\<rparr>"
  unfolding container_ok_def reestablish_map_def
  using reestablish_map_prefix [OF assms le_refl refl] by simp

lemma container_ok_remove_elements_if:
  "container_ok ident c \<Longrightarrow> container_ok ident (remove_elements_if ident f c)"
  unfolding remove_elements_if_def Let_def
  by (intro container_ok_reestablish distinct_map_filter container_ok_distinct)

lemma graph_ok_empty [simp]: "graph_ok graph_empty"
  by (simp add: graph_ok_def graph_empty_def)

lemma graph_ok_push_node: "graph_ok g \<Longrightarrow> graph_ok (push_node n g)"
  by (auto simp: graph_ok_def push_node_def container_ok_push split: option.splits)

lemma graph_ok_push_edge:
  assumes "graph_ok g" and "push_edge e g = Inr g'" shows "graph_ok g'"
proof (cases "map' (m_edges g) (e_id e)")
  case (Some found)
  with assms show ?thesis by (simp add: push_edge_def)
next
  case None
  with assms(2) have "m_nodes g' = m_nodes g"
    and "m_edges g' = \<lparr>vec = edges g @ [e],
                         map' = emplace (map' (m_edges g)) (e_id e) (length (edges g))\<rparr>"
    by (auto simp: push_edge_def Let_def split: option.splits)
  with assms(1) None show ?thesis
    by (simp add: graph_ok_def container_ok_push)
qed

lemma graph_ok_remove_edges_if: "graph_ok g \<Longrightarrow> graph_ok (remove_edges_if f g)"
  by (simp add: graph_ok_def remove_edges_if_def container_ok_remove_elements_if)

lemma m_nodes_remove_edges_if [simp]: "m_nodes (remove_edges_if f g) = m_nodes g"
  by (simp add: remove_edges_if_def)

lemma remove_nodes_fold_edges_ok:
  "container_ok e_id (m_edges h) \<Longrightarrow>
   container_ok e_id (m_edges (fold (\<lambda>node h.
                       if function node
                       then (let h1 = remove_edges_if
                                        (\<lambda>edge. e_one edge = n_id node \<or> e_two edge = n_id node) h
                             in h1\<lparr>m_index := (m_index h1)(n_id node := None)\<rparr>)
                       else h) ns h))"
  by (induction ns arbitrary: h) (simp_all add: Let_def remove_edges_if_def container_ok_remove_elements_if)

lemma graph_ok_remove_nodes_if: "graph_ok g \<Longrightarrow> graph_ok (remove_nodes_if f g)"
  by (simp add: graph_ok_def remove_nodes_if_def Let_def container_ok_remove_elements_if
      remove_nodes_fold_edges_ok)

lemma graph_ok_operation: "graph_ok g \<Longrightarrow> operation op g = Inr g' \<Longrightarrow> graph_ok g'"
  by (cases op) (auto simp: graph_ok_push_node graph_ok_push_edge remove_node_def remove_edge_def
      graph_ok_remove_nodes_if graph_ok_remove_edges_if split: if_splits)

lemma graph_ok_apply_operations:
  "graph_ok g \<Longrightarrow> apply_operations ops g = Inr g' \<Longrightarrow> graph_ok g'"
  by (induction ops arbitrary: g) (auto split: sum.splits dest: graph_ok_operation)

lemma graph_ok_apply_modifications:
  "\<forall>g \<in> set states. graph_ok g \<Longrightarrow> apply_modifications mods states = Inr states'
   \<Longrightarrow> \<forall>g \<in> set states'. graph_ok g"
proof (induction mods arbitrary: states)
  case Nil
  then show ?case by simp
next
  case (Cons m mods)
  from Cons.prems(2) obtain new_state where
    ns: "apply_operations m (if states \<noteq> [] then last states else graph_empty) = Inr new_state"
    and rest: "apply_modifications mods (states @ [new_state]) = Inr states'"
    by (auto split: sum.splits)
  have "graph_ok (if states \<noteq> [] then last states else graph_empty)"
    using Cons.prems(1) by simp
  then have "graph_ok new_state" using ns by (rule graph_ok_apply_operations)
  with Cons.prems(1) have "\<forall>g \<in> set (states @ [new_state]). graph_ok g" by simp
  then show ?case using rest by (rule Cons.IH)
qed

lemma node_exists_iff: "graph_ok g \<Longrightarrow> node_exists g i \<longleftrightarrow> i \<in> n_id ` set (nodes g)"
  using container_ok_dom [of n_id "m_nodes g" i] by (simp add: graph_ok_def node_exists_def)

lemma edge_exists_iff: "graph_ok g \<Longrightarrow> edge_exists g i \<longleftrightarrow> i \<in> e_id ` set (edges g)"
  using container_ok_dom [of e_id "m_edges g" i] by (simp add: graph_ok_def edge_exists_def)


section \<open>The adjacency index after removing an edge\<close>

text \<open>
  Claim C3 at a failing input. After pushing the nodes \<open>0\<close>, \<open>1\<close>, \<open>2\<close> and the edges
  \<open>0\<close> (between \<open>0\<close> and \<open>1\<close>) and \<open>1\<close> (between \<open>0\<close> and \<open>2\<close>) and removing edge \<open>0\<close>,
  no call having thrown, \<open>edge_exists(0, 2)\<close> is true and \<open>edge_exists(2, 0)\<close> is false:
  removing an edge erases its two endpoints as keys from every entry of the adjacency
  index, here also the key \<open>0\<close> from the entry of node \<open>2\<close>.
\<close>

theorem edge_exists_not_symmetric:
  "edge_exists_after remove_one_of_two_edges 0 2 = Inr True
   \<and> edge_exists_after remove_one_of_two_edges 2 0 = Inr False"
  by code_simp

section \<open>The flags set by \<open>build\<close>\<close>

text \<open>Setting the flags changes neither the maps nor the ids of a state.\<close>

lemma set_bool_values_at_maps [simp]:
  "map' (m_nodes (set_bool_values_at i sts)) = map' (m_nodes (sts ! i))"
  "map' (m_edges (set_bool_values_at i sts)) = map' (m_edges (sts ! i))"
  "m_index (set_bool_values_at i sts) = m_index (sts ! i)"
  by (simp_all add: set_bool_values_at_def Let_def)

lemma node_exists_set_bool_values_at [simp]:
  "node_exists (set_bool_values_at i sts) = node_exists (sts ! i)"
  "edge_exists (set_bool_values_at i sts) = edge_exists (sts ! i)"
  by (simp_all add: node_exists_def edge_exists_def fun_eq_iff)

lemma set_bool_values_at_cong:
  assumes "same_maps sts states" and "sts ! i = states ! i" and "i < length states"
  shows "set_bool_values_at i sts = set_bool_values_at i states"
proof -
  from assms(1) have len: "length sts = length states" by (simp add: same_maps_def)
  have nxt: "i < length states - 1 \<Longrightarrow> node_exists (sts ! (i + 1)) = node_exists (states ! (i + 1))
      \<and> edge_exists (sts ! (i + 1)) = edge_exists (states ! (i + 1))"
    using assms(1) by (simp add: same_maps_def)
  have prv: "i > 0 \<Longrightarrow> node_exists (sts ! (i - 1)) = node_exists (states ! (i - 1))
      \<and> edge_exists (sts ! (i - 1)) = edge_exists (states ! (i - 1))"
    using assms(1,3) by (simp add: same_maps_def)
  show ?thesis
    unfolding set_bool_values_at_def Let_def len assms(2)
    using nxt prv by (cases "i < length states - 1"; cases "i > 0"; simp)
qed

lemma set_bool_values_prefix:
  "k \<le> length states \<Longrightarrow>
   (let sts = fold (\<lambda>i sts. sts[i := set_bool_values_at i sts]) [0..<k] states
    in same_maps sts states
       \<and> (\<forall>j < k. sts ! j = set_bool_values_at j states)
       \<and> (\<forall>j. k \<le> j \<longrightarrow> j < length states \<longrightarrow> sts ! j = states ! j))"
proof (induction k)
  case 0
  then show ?case by (simp add: same_maps_def)
next
  case (Suc k)
  define sts where "sts = fold (\<lambda>i sts. sts[i := set_bool_values_at i sts]) [0..<k] states"
  from Suc have k: "k < length states" by simp
  from Suc have IH: "same_maps sts states" "\<forall>j < k. sts ! j = set_bool_values_at j states"
    "\<forall>j. k \<le> j \<longrightarrow> j < length states \<longrightarrow> sts ! j = states ! j"
    by (simp_all add: sts_def Let_def)
  have eq: "set_bool_values_at k sts = set_bool_values_at k states"
    using set_bool_values_at_cong [OF IH(1) _ k] IH(3) k by simp
  have len: "length sts = length states" using IH(1) by (simp add: same_maps_def)
  have "same_maps (sts[k := set_bool_values_at k sts]) states"
    using IH(1) k unfolding eq by (auto simp: same_maps_def nth_list_update)
  moreover have "\<forall>j < Suc k. (sts[k := set_bool_values_at k sts]) ! j = set_bool_values_at j states"
    using IH(2) k len unfolding eq by (auto simp: nth_list_update less_Suc_eq)
  moreover have "\<forall>j. Suc k \<le> j \<longrightarrow> j < length states \<longrightarrow> (sts[k := set_bool_values_at k sts]) ! j = states ! j"
    using IH(3) by (auto simp: nth_list_update)
  ultimately show ?case by (simp add: sts_def Let_def)
qed

lemma set_bool_values_nth:
  "j < length states \<Longrightarrow> set_bool_values states ! j = set_bool_values_at j states"
  using set_bool_values_prefix [of "length states" states]
  by (simp add: set_bool_values_def Let_def)

lemma length_set_bool_values [simp]: "length (set_bool_values states) = length states"
  using set_bool_values_prefix [of "length states" states]
  by (simp add: set_bool_values_def Let_def same_maps_def)

lemma ids_set_bool_values_at [simp]:
  "map n_id (nodes (set_bool_values_at j sts)) = map n_id (nodes (sts ! j))"
  "map e_id (edges (set_bool_values_at j sts)) = map e_id (edges (sts ! j))"
  by (simp_all add: set_bool_values_at_def Let_def comp_def)

lemma id_sets_set_bool_values_at [simp]:
  "n_id ` set (nodes (set_bool_values_at j sts)) = n_id ` set (nodes (sts ! j))"
  "e_id ` set (edges (set_bool_values_at j sts)) = e_id ` set (edges (sts ! j))"
  using ids_set_bool_values_at [of j sts] by (metis set_map)+

lemma set_bool_values_at_node:
  assumes "node \<in> set (nodes (set_bool_values_at t states))"
  shows "(n_newly_added node \<longleftrightarrow> t > 0 \<and> \<not> node_exists (states ! (t - 1)) (n_id node))
       \<and> (n_to_be_deleted node \<longleftrightarrow> t < length states - 1 \<and> \<not> node_exists (states ! (t + 1)) (n_id node))"
  using assms by (auto simp: set_bool_values_at_def Let_def)

lemma set_bool_values_at_edge:
  assumes "edge \<in> set (edges (set_bool_values_at t states))"
  shows "(e_newly_added edge \<longleftrightarrow> t > 0 \<and> \<not> edge_exists (states ! (t - 1)) (e_id edge))
       \<and> (e_to_be_deleted edge \<longleftrightarrow> t < length states - 1 \<and> \<not> edge_exists (states ! (t + 1)) (e_id edge))"
  using assms by (auto simp: set_bool_values_at_def Let_def)

text \<open>
  Claim C2. After a \<open>build()\<close> that returns, for every state index \<open>t\<close> and every node
  or edge in \<open>states[t]\<close>: \<open>is_new\<close> holds iff \<open>t > 0\<close> and no element of \<open>states[t - 1]\<close> has
  that id, and \<open>is_old\<close> holds iff \<open>t\<close> is not the last index and no element of
  \<open>states[t + 1]\<close> has that id.
\<close>

theorem build_sets_flags:
  assumes "build dg = Inr dg'" and "t < length (m_states dg')"
  shows "(\<forall>node \<in> set (nodes (m_states dg' ! t)).
            (n_newly_added node \<longleftrightarrow>
               t > 0 \<and> n_id node \<notin> n_id ` set (nodes (m_states dg' ! (t - 1))))
          \<and> (n_to_be_deleted node \<longleftrightarrow>
               t + 1 < length (m_states dg') \<and> n_id node \<notin> n_id ` set (nodes (m_states dg' ! (t + 1)))))
       \<and> (\<forall>edge \<in> set (edges (m_states dg' ! t)).
            (e_newly_added edge \<longleftrightarrow>
               t > 0 \<and> e_id edge \<notin> e_id ` set (edges (m_states dg' ! (t - 1))))
          \<and> (e_to_be_deleted edge \<longleftrightarrow>
               t + 1 < length (m_states dg') \<and> e_id edge \<notin> e_id ` set (edges (m_states dg' ! (t + 1)))))"
proof -
  from assms(1) obtain states where
    app: "apply_modifications (m_modifications dg) [] = Inr states"
    and res: "m_states dg' = set_bool_values states"
    by (auto simp: build_def split: sum.splits)
  have ok: "\<forall>g \<in> set states. graph_ok g"
    using graph_ok_apply_modifications [OF _ app] by simp
  from assms(2) res have t: "t < length states" by simp
  have at: "m_states dg' ! j = set_bool_values_at j states" if "j < length states" for j
    using that by (simp add: res set_bool_values_nth)
  have prev: "node_exists (states ! (t - 1)) i \<longleftrightarrow> i \<in> n_id ` set (nodes (m_states dg' ! (t - 1)))"
             "edge_exists (states ! (t - 1)) i \<longleftrightarrow> i \<in> e_id ` set (edges (m_states dg' ! (t - 1)))" for i
    using t ok by (simp_all add: at node_exists_iff edge_exists_iff)
  have nxt: "node_exists (states ! (t + 1)) i \<longleftrightarrow> i \<in> n_id ` set (nodes (m_states dg' ! (t + 1)))"
            "edge_exists (states ! (t + 1)) i \<longleftrightarrow> i \<in> e_id ` set (edges (m_states dg' ! (t + 1)))"
    if "t + 1 < length states" for i
    using that ok by (simp_all add: at node_exists_iff edge_exists_iff)
  have len: "t < length states - 1 \<longleftrightarrow> t + 1 < length (m_states dg')"
    using res by auto
  show ?thesis
  proof (intro conjI ballI)
    fix node assume "node \<in> set (nodes (m_states dg' ! t))"
    then have n: "node \<in> set (nodes (set_bool_values_at t states))" using t by (simp add: at)
    show "n_newly_added node \<longleftrightarrow> t > 0 \<and> n_id node \<notin> n_id ` set (nodes (m_states dg' ! (t - 1)))"
      using set_bool_values_at_node [OF n] prev(1) by simp
    show "n_to_be_deleted node \<longleftrightarrow>
        t + 1 < length (m_states dg') \<and> n_id node \<notin> n_id ` set (nodes (m_states dg' ! (t + 1)))"
      using set_bool_values_at_node [OF n] nxt(1) len res by auto
  next
    fix edge assume "edge \<in> set (edges (m_states dg' ! t))"
    then have e: "edge \<in> set (edges (set_bool_values_at t states))" using t by (simp add: at)
    show "e_newly_added edge \<longleftrightarrow> t > 0 \<and> e_id edge \<notin> e_id ` set (edges (m_states dg' ! (t - 1)))"
      using set_bool_values_at_edge [OF e] prev(2) by simp
    show "e_to_be_deleted edge \<longleftrightarrow>
        t + 1 < length (m_states dg') \<and> e_id edge \<notin> e_id ` set (edges (m_states dg' ! (t + 1)))"
      using set_bool_values_at_edge [OF e] nxt(2) len res by auto
  qed
qed

theorem build_sets_flags_witness:
  "\<exists>dg'. build build_example = Inr dg' \<and> 2 < length (m_states dg')
     \<and> edges (m_states dg' ! 2) \<noteq> []
     \<and> (\<forall>edge \<in> set (edges (m_states dg' ! 2)).
           e_newly_added edge = (e_id edge \<notin> e_id ` set (edges (m_states dg' ! 1)))
         \<and> e_to_be_deleted edge = (e_id edge \<notin> e_id ` set (edges (m_states dg' ! 3))))"
proof -
  have "case build build_example of
          Inl e \<Rightarrow> False
        | Inr dg' \<Rightarrow> length (m_states dg') = 4 \<and> edges (m_states dg' ! 2) \<noteq> []"
    by code_simp
  then obtain dg' where b: "build build_example = Inr dg'"
    and l: "length (m_states dg') = 4" and e: "edges (m_states dg' ! 2) \<noteq> []"
    by (auto split: sum.splits)
  from l have t: "2 < length (m_states dg')" by simp
  from build_sets_flags [OF b t] l
  have "\<forall>edge \<in> set (edges (m_states dg' ! 2)).
           e_newly_added edge = (e_id edge \<notin> e_id ` set (edges (m_states dg' ! 1)))
         \<and> e_to_be_deleted edge = (e_id edge \<notin> e_id ` set (edges (m_states dg' ! 3)))"
    by (simp add: numeral_3_eq_3 numeral_2_eq_2)
  with b t e show ?thesis by blast
qed

section \<open>The interpolator on a dynamic graph without states\<close>






section \<open>The alpha values of a frame\<close>




















section \<open>The border force of Fruchterman and Reingold\<close>

text \<open>
  Called with the coordinate as \<open>coord\<close> and the extent of the canvas as \<open>size\<close>, as its
  parameters are named, \<open>border_displacement\<close> is the border force of the specification.
\<close>

lemma border_displacement_matches_spec:
  "border_displacement self k c s = border_force_spec (m_border_force self) k s c"
  by (simp add: border_displacement_def displace_def border_force_spec_def SmallOffset_def power2_eq_square
      algebra_simps)

lemma fold_update_prefix:
  "n \<le> length xs \<Longrightarrow> length disp = length xs \<Longrightarrow>
   fold (\<lambda>i d. d[i := f (xs ! i)]) [0..<n] disp = map f (take n xs) @ drop n disp"
proof (induction n)
  case 0
  then show ?case by simp
next
  case (Suc n)
  then have n: "n < length xs" by simp
  have "fold (\<lambda>i d. d[i := f (xs ! i)]) [0..<Suc n] disp
      = (map f (take n xs) @ drop n disp)[n := f (xs ! n)]"
    using Suc by simp
  also have "\<dots> = map f (take n xs) @ (drop n disp)[0 := f (xs ! n)]"
    using n by (simp add: list_update_append)
  also have "(drop n disp)[0 := f (xs ! n)] = f (xs ! n) # drop (Suc n) disp"
  proof -
    have "drop n disp = disp ! n # drop (Suc n) disp"
      using n Suc.prems(2) by (simp add: Cons_nth_drop_Suc)
    then show ?thesis by simp
  qed
  also have "map f (take n xs) @ f (xs ! n) # drop (Suc n) disp = map f (take (Suc n) xs) @ drop (Suc n) disp"
    using n by (simp add: take_Suc_conv_app_nth)
  finally show ?case .
qed

lemma reset_and_border_map:
  assumes "length disp = length (nodes graph)"
  shows "reset_and_border self graph width height k disp =
     map (\<lambda>n. \<lparr>coords_x = border_displacement self k width (coords_x (n_coords n)),
               coords_y = border_displacement self k height (coords_y (n_coords n))\<rparr>) (nodes graph)"
  unfolding reset_and_border_def
  using fold_update_prefix [OF le_refl assms, of "\<lambda>n. \<lparr>coords_x = border_displacement self k width (coords_x (n_coords n)),
               coords_y = border_displacement self k height (coords_y (n_coords n))\<rparr>"]
    assms
  by simp

text \<open>
  \<open>reset_and_border\<close> passes the extent of the canvas as \<open>coord\<close> and the coordinate of
  the node as \<open>size\<close>: every displacement is the formula of the specification with the
  two exchanged.
\<close>

lemma reset_and_border_exchanged:
  assumes "length disp = length (nodes graph)"
  shows "reset_and_border self graph width height k disp =
     map (\<lambda>n. \<lparr>coords_x = border_force_spec (m_border_force self) k (coords_x (n_coords n)) width,
               coords_y = border_force_spec (m_border_force self) k (coords_y (n_coords n)) height\<rparr>)
       (nodes graph)"
  by (simp add: reset_and_border_map [OF assms] border_displacement_matches_spec)

lemma nodes_one_node_graph:
  "nodes one_node_graph = [(new_node 0)\<lparr>n_coords := \<lparr>coords_x = 0.5, coords_y = 0\<rparr>\<rparr>]"
  by (simp add: one_node_graph_def push_node_def graph_empty_def container_empty_def)

lemma iteration_k_one_node: "iteration_k fruchterman_reingold_default one_node_graph 2 2 = 1.2"
  by (simp add: iteration_k_def nodes_one_node_graph fruchterman_reingold_default_def)

text \<open>
  Claim C6 at a failing input. For the graph with one node at \<open>(0.5, 0)\<close> on a canvas of
  width 2 and height 2, \<open>iteration\<close> computes \<open>k = 1.2\<close> and initialises the displacement
  of the node along the x axis to \<open>0.864 / 2.2505 - 0.864 / 1.7505\<close>, where the border
  force of the claim, with \<open>border_force = 0.6\<close>, \<open>size = 2\<close> and \<open>c = 0.5\<close>, is
  \<open>0.864 / 1.502 - 0.864 / 0.502\<close>.
\<close>

theorem border_force_arguments_swapped:
  "iteration_reset_and_border fruchterman_reingold_default one_node_graph 2 2
     = [\<lparr>coords_x = 0.864 / 2.2505 - 0.864 / 1.7505, coords_y = 0\<rparr>]
   \<and> border_force_spec 0.6 1.2 2 0.5 = 0.864 / 1.502 - 0.864 / 0.502
   \<and> (0.864 / 2.2505 - 0.864 / 1.7505 :: real) \<noteq> 0.864 / 1.502 - 0.864 / 0.502"
  unfolding iteration_reset_and_border_def iteration_k_one_node
  by (simp add: reset_and_border_def nodes_one_node_graph border_displacement_def displace_def
      fruchterman_reingold_default_def SmallOffset_def border_force_spec_def new_node_def power2_eq_square)

section \<open>The parallel tolerance pass on a single state\<close>

lemma tolerance_round_single:
  "tolerance_round self width height temp tol [g]
     = [sl_iteration (m_static_layout self) g width height temp]"
  by (simp add: tolerance_round_def tolerance_state_def within_tolerance_def)

lemma interleaved_single:
  "interleaved 0 2 (Suc 0) = [0]" "interleaved (Suc 0) 2 (Suc 0) = []"
  by (simp_all add: interleaved.simps [of 0 2 "Suc 0"] interleaved.simps [of 2 2 "Suc 0"]
      interleaved.simps [of "Suc 0" 2 "Suc 0"])

lemma parallel_round_single:
  "parallel_round self 2 width height tol \<lparr>p_states = [g], p_copies = [c], p_apply = [a], p_temp = t\<rparr>
     = \<lparr>p_states = [if a then c else g],
        p_copies = [sl_iteration (m_static_layout self) (if a then c else g) width height t],
        p_apply = [True], p_temp = anneal (m_cooling self) t\<rparr>"
  by (simp add: parallel_round_def thread_iterate_def interleaved_single reconcile_def iterate_copy_def
      first_thread_scan_def decide_def within_tolerance_def Let_def numeral_2_eq_2)

lemma nodes_shift_layout:
  "nodes (sl_iteration shift_layout g width height t)
     = map (\<lambda>n. n\<lparr>n_coords := \<lparr>coords_x = coords_x (n_coords n) + t,
                                 coords_y = coords_y (n_coords n)\<rparr>\<rparr>) (nodes g)"
  by (simp add: shift_layout_def)

text \<open>
  Claim C1 at a failing input. One state with one node at \<open>x = 0.5\<close>, two rounds of
  cooling from temperature \<open>0.4\<close>, a static layout that moves every node by the
  temperature: the sequential pass accepts both iterated copies and ends at
  \<open>x = 0.5 + 0.4 + 0.3908\<close>; the parallel pass with two threads returns with
  \<open>x = 0.5 + 0.4\<close>, the copy of its last round accepted in \<open>apply\<close> but never moved
  into the vector of states.
\<close>

theorem parallel_drops_last_round:
  "xs_of (tolerance two_rounds_layout [one_node_graph] 1 1 0.04) = Some [[1.2908]]
   \<and> xs_of (parallel_tolerance two_rounds_layout 2 [one_node_graph] 1 1 0.04) = Some [[0.9]]"
  by (simp add: xs_of_def tolerance_def parallel_tolerance_def scaled_tolerance_def two_rounds_layout_def
      numeral_2_eq_2 tolerance_round_single parallel_round_single [unfolded numeral_2_eq_2]
      nodes_shift_layout nodes_one_node_graph new_node_def)

section \<open>The sequential tolerance pass\<close>








text \<open>
  Visiting a position changes the vector of states at that position only, so a round leaves
  the positions it has not reached yet as they were at its start, and the positions it has
  passed as they are at its end.
\<close>

lemma length_tolerance_state [simp]:
  "length (tolerance_state self width height temp tol s T) = length T"
  by (simp add: tolerance_state_def Let_def)


lemma length_fold_tolerance_state [simp]:
  "length (fold (tolerance_state self width height temp tol) ps T) = length T"
  by (induction ps arbitrary: T) simp_all


lemma length_tolerance_round [simp]:
  "length (tolerance_round self width height temp tol T) = length T"
  by (simp add: tolerance_round_def)

lemma length_tolerance_rounds [simp]:
  "length (tolerance_rounds self width height tol n temp T) = length T"
  by (induction n arbitrary: temp T) simp_all

lemma length_tolerance_before [simp]:
  "length (tolerance_before self width height tol r s states) = length states"
  by (simp add: tolerance_before_def)









section \<open>The graph animation partitioning of the nodes\<close>

text \<open>The merge walks on sorted lists are union and intersection.\<close>

lemma set_set_union: "set (set_union as bs) = set as \<union> set bs"
  by (induction as bs rule: set_union.induct) auto

lemma sorted_set_union: "sorted as \<Longrightarrow> sorted bs \<Longrightarrow> sorted (set_union as bs)"
  by (induction as bs rule: set_union.induct) (auto simp: set_set_union)

lemma set_set_intersection:
  "sorted as \<Longrightarrow> sorted bs \<Longrightarrow> set (set_intersection as bs) = set as \<inter> set bs"
proof (induction as bs rule: set_intersection.induct)
  case (1 bs)
  then show ?case by simp
next
  case (2 a as)
  then show ?case by simp
next
  case (3 a as b bs)
  show ?case
  proof (cases "a < b")
    case True
    then have "a \<notin> set (b # bs)" using "3.prems"(2) by auto
    then show ?thesis using True 3 by auto
  next
    case False
    show ?thesis
    proof (cases "b < a")
      case True
      then have "b \<notin> set (a # as)" using "3.prems"(1) by auto
      then show ?thesis using True False 3 by auto
    next
      case F: False
      with False have "a = b" by simp
      then show ?thesis using False F 3 by auto
    qed
  qed
qed

lemma find_partition_Some:
  "find_partition ps l = Some j \<Longrightarrow>
     j < length ps \<and> set_intersection (np_live_time (ps ! j)) l = []"
proof (induction ps arbitrary: j)
  case Nil
  then show ?case by simp
next
  case (Cons p ps)
  show ?case
  proof (cases "empty (intersection (np_live_time p) l)")
    case True
    with Cons.prems show ?thesis by (simp add: empty_def intersection_def)
  next
    case False
    with Cons.prems obtain k where "find_partition ps l = Some k" "j = Suc k" by auto
    with Cons.IH show ?thesis by simp
  qed
qed

text \<open>The live sets that \<open>node_live_times\<close> records are sorted.\<close>

lemma lives_upto_add_live: "lives_upto t result \<Longrightarrow> lives_upto t (add_live t i result)"
  by (auto simp: lives_upto_def add_live_def add_def sorted_append split: option.splits)

lemma lives_upto_fold_add_live:
  "lives_upto t result \<Longrightarrow> lives_upto t (fold (\<lambda>x. add_live t (f x)) xs result)"
  by (induction xs arbitrary: result) (simp_all add: lives_upto_add_live)

lemma lives_upto_mono: "lives_upto t result \<Longrightarrow> t \<le> t' \<Longrightarrow> lives_upto t' result"
  unfolding lives_upto_def by (meson order_trans)

lemma lives_upto_live_times:
  "lives_upto n (fold (\<lambda>t result. fold (\<lambda>x. add_live t (f x)) (g t) result) [0..<n] Map.empty)"
proof (induction n)
  case 0
  then show ?case by (simp add: lives_upto_def)
next
  case (Suc n)
  have "lives_upto n (fold (\<lambda>x. add_live n (f x)) (g n)
          (fold (\<lambda>t result. fold (\<lambda>x. add_live t (f x)) (g t) result) [0..<n] Map.empty))"
    using Suc by (rule lives_upto_fold_add_live)
  then show ?case by (simp add: lives_upto_mono)
qed

lemma node_live_times_sorted: "node_live_times states i = Some l \<Longrightarrow> sorted l"
  using lives_upto_live_times [of "length states" n_id "\<lambda>t. nodes (states ! t)"]
  by (simp add: node_live_times_def lives_upto_def)


text \<open>One step of the loop over the nodes keeps the invariant.\<close>

lemma container_ok_update:
  assumes "container_ok ident c" and "j < length (vec c)" and "ident x = ident (vec c ! j)"
  shows "container_ok ident (c\<lparr>vec := (vec c)[j := x]\<rparr>)"
  unfolding container_ok_def
proof (intro allI)
  fix i k
  have "k < length (vec c) \<Longrightarrow> ident ((vec c)[j := x] ! k) = ident (vec c ! k)"
    using assms(3) by (cases "k = j") simp_all
  then show "map' (c\<lparr>vec := (vec c)[j := x]\<rparr>) i = Some k \<longleftrightarrow>
      k < length (vec (c\<lparr>vec := (vec c)[j := x]\<rparr>)) \<and> ident (vec (c\<lparr>vec := (vec c)[j := x]\<rparr>) ! k) = i"
    using assms(1) unfolding container_ok_def by auto
qed

lemma ids_list_update:
  assumes "j < length v" and "ident x = ident (v ! j)"
  shows "map ident (v[j := x]) = map ident v"
  using assms by (simp add: map_update list_update_same_conv)

lemma gap_node_found:
  assumes "find_partition (nodes (m_graph gap)) l = Some j"
  shows "nodes (m_graph (gap_node i l gap))
           = (nodes (m_graph gap))[j := np_add_live_time l (nodes (m_graph gap) ! j)]"
    and "map' (m_nodes (m_graph (gap_node i l gap))) = map' (m_nodes (m_graph gap))"
    and "m_node_map (gap_node i l gap) = emplace (m_node_map gap) i (n_id (nodes (m_graph gap) ! j))"
  using assms by (simp_all add: gap_node_def Let_def map_node_def)

lemma gap_node_new:
  assumes "find_partition (nodes (m_graph gap)) l = None"
    and "map' (m_nodes (m_graph gap)) i = None"
  shows "nodes (m_graph (gap_node i l gap))
           = nodes (m_graph gap) @ [np_add_live_time l (new_node_partition i)]"
    and "map' (m_nodes (m_graph (gap_node i l gap)))
           = (map' (m_nodes (m_graph gap)))(i \<mapsto> length (nodes (m_graph gap)))"
    and "m_node_map (gap_node i l gap) = m_node_map gap"
proof -
  have id: "n_id (new_node_partition i) = i"
    by (simp add: new_node_partition_def new_node_def node.defs)
  show "nodes (m_graph (gap_node i l gap))
           = nodes (m_graph gap) @ [np_add_live_time l (new_node_partition i)]"
    using assms by (simp add: gap_node_def Let_def push_node_def push_node_ref_def id)
  show "map' (m_nodes (m_graph (gap_node i l gap)))
           = (map' (m_nodes (m_graph gap)))(i \<mapsto> length (nodes (m_graph gap)))"
    using assms by (simp add: gap_node_def Let_def push_node_def push_node_ref_def id emplace_def)
  show "m_node_map (gap_node i l gap) = m_node_map gap"
    using assms by (simp add: gap_node_def Let_def)
qed

lemma n_id_np_add_live_time [simp]: "n_id (np_add_live_time l p) = n_id p"
  by (simp add: np_add_live_time_def)

lemma np_live_time_add [simp]:
  "np_live_time (np_add_live_time l p) = set_union (np_live_time p) l"
  by (simp add: np_add_live_time_def join_def setunion_def)

lemma new_node_partition_simps [simp]:
  "n_id (new_node_partition i) = i" "np_live_time (new_node_partition i) = []"
  by (simp_all add: new_node_partition_def new_node_def node.defs)


lemma distinct_map_nth_neq:
  assumes "distinct (map f xs)" and "k < length xs" and "j < length xs" and "k \<noteq> j"
  shows "f (xs ! k) \<noteq> f (xs ! j)"
proof
  assume "f (xs ! k) = f (xs ! j)"
  then have "map f xs ! k = map f xs ! j" using assms(2,3) by simp
  moreover have "k < length (map f xs)" "j < length (map f xs)" using assms(2,3) by simp_all
  ultimately have "k = j" using assms(1) by (simp only: nth_eq_iff_index_eq)
  with assms(4) show False by simp
qed

lemma gap_inv_found:
  assumes inv: "gap_inv nl P gap" and fresh: "i \<notin> P" and li: "nl i = Some l" and so: "sorted l"
    and found: "find_partition (nodes (m_graph gap)) l = Some j"
  shows "gap_inv nl (insert i P) (gap_node i l gap)"
proof -
  define ns where "ns = nodes (m_graph gap)"
  define pj where "pj = ns ! j"
  define gap' where "gap' = gap_node i l gap"
  from inv have ok: "container_ok n_id (m_nodes (m_graph gap))"
    and ids: "n_id ` set ns \<subseteq> P"
    and dm: "dom (m_node_map gap) \<subseteq> P"
    and unaliased: "\<forall>p \<in> set ns. m_node_map gap (n_id p) = None"
    and reps: "\<forall>a \<in> P. rep gap a \<in> n_id ` set ns"
    and lives: "\<forall>p \<in> set ns. sorted (np_live_time p)
           \<and> set (np_live_time p) = (\<Union>a \<in> {a \<in> P. rep gap a = n_id p}. live nl a)"
    and disj: "\<forall>a \<in> P. \<forall>b \<in> P. a \<noteq> b \<and> rep gap a = rep gap b \<longrightarrow> live nl a \<inter> live nl b = {}"
    by (simp_all add: gap_inv_def ns_def)
  from find_partition_Some [OF found] have j: "j < length ns"
    and emp: "set_intersection (np_live_time pj) l = []" by (simp_all add: ns_def pj_def)
  have pj_in: "pj \<in> set ns" using j by (simp add: pj_def)
  have live_i: "live nl i = set l" by (simp add: live_def li)
  have nomap: "m_node_map gap i = None" using dm fresh by auto
  have dist: "distinct (map n_id ns)" using container_ok_distinct [OF ok] by (simp add: ns_def)
  have pj_disj: "set (np_live_time pj) \<inter> set l = {}"
    using set_set_intersection [of "np_live_time pj" l] lives pj_in so emp by simp
  have nodes': "nodes (m_graph gap') = ns[j := np_add_live_time l pj]"
    and map'': "map' (m_nodes (m_graph gap')) = map' (m_nodes (m_graph gap))"
    and nm': "m_node_map gap' = (m_node_map gap)(i \<mapsto> n_id pj)"
    using gap_node_found [OF found, of i] nomap
    by (simp_all add: gap'_def ns_def pj_def emplace_fresh)
  have rep': "rep gap' a = (if a = i then n_id pj else rep gap a)" for a
    by (simp add: rep_def nm')
  have idmap: "map n_id (nodes (m_graph gap')) = map n_id ns"
    unfolding nodes' using j by (intro ids_list_update) (simp_all add: pj_def)
  then have idset: "n_id ` set (nodes (m_graph gap')) = n_id ` set ns"
    by (metis set_map)
  have c1: "container_ok n_id (m_nodes (m_graph gap'))"
  proof -
    have "m_nodes (m_graph gap') = (m_nodes (m_graph gap))\<lparr>vec := (vec (m_nodes (m_graph gap)))[j := np_add_live_time l pj]\<rparr>"
      using nodes' map'' by (simp add: ns_def)
    moreover have "container_ok n_id ((m_nodes (m_graph gap))\<lparr>vec := (vec (m_nodes (m_graph gap)))[j := np_add_live_time l pj]\<rparr>)"
      using ok j by (intro container_ok_update) (simp_all add: ns_def pj_def)
    ultimately show ?thesis by simp
  qed
  have c2: "n_id ` set (nodes (m_graph gap')) \<subseteq> insert i P" using idset ids by auto
  have c3: "dom (m_node_map gap') \<subseteq> insert i P" using dm by (auto simp: nm')
  have c4: "\<forall>p \<in> set (nodes (m_graph gap')). m_node_map gap' (n_id p) = None"
  proof
    fix p assume "p \<in> set (nodes (m_graph gap'))"
    then have "n_id p \<in> n_id ` set ns" using idset by blast
    then obtain q where q: "q \<in> set ns" "n_id q = n_id p" by auto
    with ids fresh have "n_id p \<noteq> i" by auto
    moreover have "m_node_map gap (n_id p) = None" using unaliased q by metis
    ultimately show "m_node_map gap' (n_id p) = None" by (simp add: nm')
  qed
  have c5: "\<forall>a \<in> insert i P. rep gap' a \<in> n_id ` set (nodes (m_graph gap'))"
    using reps pj_in by (auto simp: rep' idset)
  have setA: "{a \<in> insert i P. rep gap' a = n_id pj} = insert i {a \<in> P. rep gap a = n_id pj}"
    using fresh by (auto simp: rep')
  have setB: "{a \<in> insert i P. rep gap' a = q} = {a \<in> P. rep gap a = q}" if "q \<noteq> n_id pj" for q
    using fresh that by (auto simp: rep')
  have c6: "\<forall>p \<in> set (nodes (m_graph gap')).
           sorted (np_live_time p)
           \<and> set (np_live_time p) = (\<Union>a \<in> {a \<in> insert i P. rep gap' a = n_id p}. live nl a)"
  proof
    fix p assume "p \<in> set (nodes (m_graph gap'))"
    then obtain k where k: "k < length ns" "p = ns[j := np_add_live_time l pj] ! k"
      unfolding nodes' by (auto simp: in_set_conv_nth)
    show "sorted (np_live_time p)
           \<and> set (np_live_time p) = (\<Union>a \<in> {a \<in> insert i P. rep gap' a = n_id p}. live nl a)"
    proof (cases "k = j")
      case True
      with k j have p: "p = np_add_live_time l pj" by simp
      have spj: "sorted (np_live_time pj)"
        and lpj: "set (np_live_time pj) = (\<Union>a \<in> {a \<in> P. rep gap a = n_id pj}. live nl a)"
        using lives pj_in by simp_all
      have "(\<Union>a \<in> {a \<in> insert i P. rep gap' a = n_id pj}. live nl a)
            = set l \<union> set (np_live_time pj)"
        unfolding setA lpj by (simp add: live_i)
      then show ?thesis
        unfolding p using spj so by (simp add: sorted_set_union set_set_union Un_commute)
    next
      case False
      with k have p: "p = ns ! k" by simp
      then have pin: "p \<in> set ns" using k by simp
      have "n_id p \<noteq> n_id pj"
        unfolding p pj_def using dist k(1) j False by (rule distinct_map_nth_neq)
      then have "{a \<in> insert i P. rep gap' a = n_id p} = {a \<in> P. rep gap a = n_id p}"
        by (rule setB)
      then show ?thesis using lives pin by (simp only:)
    qed
  qed
  have c7: "\<forall>a \<in> insert i P. \<forall>b \<in> insert i P. a \<noteq> b \<and> rep gap' a = rep gap' b
        \<longrightarrow> live nl a \<inter> live nl b = {}"
  proof (intro ballI impI)
    fix a b assume ab: "a \<in> insert i P" "b \<in> insert i P" "a \<noteq> b \<and> rep gap' a = rep gap' b"
    have sub: "live nl c \<subseteq> set (np_live_time pj)" if "c \<in> P" "rep gap c = n_id pj" for c
      using lives pj_in that by auto
    show "live nl a \<inter> live nl b = {}"
    proof (cases "a = i")
      case True
      with ab fresh have "b \<in> P" "rep gap b = n_id pj" by (auto simp: rep' split: if_splits)
      from sub [OF this] pj_disj show ?thesis by (auto simp: True live_i)
    next
      case False
      show ?thesis
      proof (cases "b = i")
        case True
        with ab False fresh have "a \<in> P" "rep gap a = n_id pj" by (auto simp: rep' split: if_splits)
        from sub [OF this] pj_disj show ?thesis by (auto simp: True live_i)
      next
        case F: False
        with False ab have "a \<in> P" "b \<in> P" "a \<noteq> b \<and> rep gap a = rep gap b" by (auto simp: rep')
        with disj show ?thesis by blast
      qed
    qed
  qed
  show ?thesis
    unfolding gap'_def [symmetric] gap_inv_def using c1 c2 c3 c4 c5 c6 c7 by blast
qed


lemma gap_inv_new:
  assumes inv: "gap_inv nl P gap" and fresh: "i \<notin> P" and li: "nl i = Some l" and so: "sorted l"
    and none: "find_partition (nodes (m_graph gap)) l = None"
  shows "gap_inv nl (insert i P) (gap_node i l gap)"
proof -
  define ns where "ns = nodes (m_graph gap)"
  define pn where "pn = np_add_live_time l (new_node_partition i)"
  define gap' where "gap' = gap_node i l gap"
  from inv have ok: "container_ok n_id (m_nodes (m_graph gap))"
    and ids: "n_id ` set ns \<subseteq> P"
    and dm: "dom (m_node_map gap) \<subseteq> P"
    and unaliased: "\<forall>p \<in> set ns. m_node_map gap (n_id p) = None"
    and reps: "\<forall>a \<in> P. rep gap a \<in> n_id ` set ns"
    and lives: "\<forall>p \<in> set ns. sorted (np_live_time p)
           \<and> set (np_live_time p) = (\<Union>a \<in> {a \<in> P. rep gap a = n_id p}. live nl a)"
    and disj: "\<forall>a \<in> P. \<forall>b \<in> P. a \<noteq> b \<and> rep gap a = rep gap b \<longrightarrow> live nl a \<inter> live nl b = {}"
    by (simp_all add: gap_inv_def ns_def)
  have live_i: "live nl i = set l" by (simp add: live_def li)
  have nomap: "m_node_map gap i = None" using dm fresh by auto
  have noid: "i \<notin> n_id ` set ns" using ids fresh by auto
  then have absent: "map' (m_nodes (m_graph gap)) i = None"
    using container_ok_dom [OF ok, of i] by (simp add: ns_def)
  have pn: "n_id pn = i" "np_live_time pn = l" by (simp_all add: pn_def)
  have nodes': "nodes (m_graph gap') = ns @ [pn]"
    and map'': "map' (m_nodes (m_graph gap')) = (map' (m_nodes (m_graph gap)))(i \<mapsto> length ns)"
    and nm': "m_node_map gap' = m_node_map gap"
    using gap_node_new [OF none absent] by (simp_all add: gap'_def ns_def pn_def)
  have rep': "rep gap' a = rep gap a" for a by (simp add: rep_def nm')
  have rep_i: "rep gap i = i" by (simp add: rep_def nomap)
  have c1: "container_ok n_id (m_nodes (m_graph gap'))"
  proof -
    have "m_nodes (m_graph gap') = \<lparr>vec = vec (m_nodes (m_graph gap)) @ [pn],
        map' = emplace (map' (m_nodes (m_graph gap))) (n_id pn) (length (vec (m_nodes (m_graph gap))))\<rparr>"
      using nodes' map'' absent by (simp add: ns_def pn emplace_fresh)
    moreover have "container_ok n_id \<lparr>vec = vec (m_nodes (m_graph gap)) @ [pn],
        map' = emplace (map' (m_nodes (m_graph gap))) (n_id pn) (length (vec (m_nodes (m_graph gap))))\<rparr>"
      using ok absent by (intro container_ok_push) (simp_all add: pn)
    ultimately show ?thesis by simp
  qed
  have c2: "n_id ` set (nodes (m_graph gap')) \<subseteq> insert i P" using ids by (auto simp: nodes' pn)
  have c3: "dom (m_node_map gap') \<subseteq> insert i P" using dm by (auto simp: nm')
  have c4: "\<forall>p \<in> set (nodes (m_graph gap')). m_node_map gap' (n_id p) = None"
    using unaliased nomap by (auto simp: nodes' nm' pn)
  have c5: "\<forall>a \<in> insert i P. rep gap' a \<in> n_id ` set (nodes (m_graph gap'))"
    using reps rep_i by (auto simp: rep' nodes' pn)
  have rep_ne: "rep gap a \<noteq> i" if "a \<in> P" for a
    using reps that noid by auto
  have setA: "{a \<in> insert i P. rep gap' a = i} = {i}"
    using rep_ne rep_i by (auto simp: rep')
  have setB: "{a \<in> insert i P. rep gap' a = q} = {a \<in> P. rep gap a = q}" if "q \<noteq> i" for q
    using that rep_i by (auto simp: rep')
  have c6: "\<forall>p \<in> set (nodes (m_graph gap')).
           sorted (np_live_time p)
           \<and> set (np_live_time p) = (\<Union>a \<in> {a \<in> insert i P. rep gap' a = n_id p}. live nl a)"
  proof
    fix p assume "p \<in> set (nodes (m_graph gap'))"
    then consider "p = pn" | "p \<in> set ns" by (auto simp: nodes')
    then show "sorted (np_live_time p)
           \<and> set (np_live_time p) = (\<Union>a \<in> {a \<in> insert i P. rep gap' a = n_id p}. live nl a)"
    proof cases
      case 1
      have "(\<Union>a \<in> {a \<in> insert i P. rep gap' a = i}. live nl a) = set l"
        unfolding setA by (simp add: live_i)
      then show ?thesis using so by (simp add: 1 pn)
    next
      case 2
      then have "n_id p \<noteq> i" using noid by auto
      then have "{a \<in> insert i P. rep gap' a = n_id p} = {a \<in> P. rep gap a = n_id p}"
        by (rule setB)
      then show ?thesis using lives 2 by (simp only:)
    qed
  qed
  have c7: "\<forall>a \<in> insert i P. \<forall>b \<in> insert i P. a \<noteq> b \<and> rep gap' a = rep gap' b
        \<longrightarrow> live nl a \<inter> live nl b = {}"
  proof (intro ballI impI)
    fix a b assume ab: "a \<in> insert i P" "b \<in> insert i P" "a \<noteq> b \<and> rep gap' a = rep gap' b"
    show "live nl a \<inter> live nl b = {}"
    proof (cases "a = i \<or> b = i")
      case True
      with ab rep_ne rep_i have False by (auto simp: rep')
      then show ?thesis ..
    next
      case False
      with ab have "a \<in> P" "b \<in> P" "a \<noteq> b \<and> rep gap a = rep gap b" by (auto simp: rep')
      with disj show ?thesis by blast
    qed
  qed
  show ?thesis
    unfolding gap'_def [symmetric] gap_inv_def using c1 c2 c3 c4 c5 c6 c7 by blast
qed

lemma gap_inv_step:
  assumes "gap_inv nl P gap" and "i \<notin> P" and "nl i = Some l" and "sorted l"
  shows "gap_inv nl (insert i P) (gap_node i l gap)"
proof (cases "find_partition (nodes (m_graph gap)) l")
  case None
  with assms show ?thesis by (rule gap_inv_new)
next
  case (Some j)
  with assms show ?thesis by (rule gap_inv_found)
qed

lemma gap_inv_nodes:
  assumes "gap_nodes ns nl gap = Inr gap'" and "gap_inv nl P gap"
    and "distinct (map n_id ns)" and "n_id ` set ns \<inter> P = {}"
    and "\<forall>i l. nl i = Some l \<longrightarrow> sorted l"
  shows "gap_inv nl (P \<union> n_id ` set ns) gap'"
  using assms(1-4)
proof (induction ns arbitrary: gap P)
  case Nil
  then show ?case by simp
next
  case (Cons n ns)
  from Cons.prems(1) obtain l where l: "nl (n_id n) = Some l"
    and rest: "gap_nodes ns nl (gap_node (n_id n) l gap) = Inr gap'"
    by (auto split: option.splits)
  have "n_id n \<notin> P" using Cons.prems(4) by auto
  then have "gap_inv nl (insert (n_id n) P) (gap_node (n_id n) l gap)"
    using Cons.prems(2) l assms(5) by (intro gap_inv_step) auto
  moreover have "distinct (map n_id ns)" using Cons.prems(3) by simp
  moreover have "n_id ` set ns \<inter> insert (n_id n) P = {}" using Cons.prems(3,4) by auto
  ultimately have "gap_inv nl (insert (n_id n) P \<union> n_id ` set ns) gap'"
    using rest by (intro Cons.IH)
  then show ?case by simp
qed

lemma gap_inv_default: "gap_inv nl {} mapped_graph_default"
  by (simp add: gap_inv_def mapped_graph_default_def graph_empty_def container_empty_def container_ok_def)


text \<open>The loop over the edges changes neither the partition nodes nor the aliases.\<close>

lemma push_edge_nodes: "push_edge e g = Inr g' \<Longrightarrow> m_nodes g' = m_nodes g"
  by (auto simp: push_edge_def Let_def split: option.splits)

lemma gap_edge_nodes:
  assumes "gap_edge e el gap = Inr gap'"
  shows "m_nodes (m_graph gap') = m_nodes (m_graph gap) \<and> m_node_map gap' = m_node_map gap"
proof (cases "mapped_node_at gap (e_one e)")
  case (Inl err)
  with assms show ?thesis by (simp only: gap_edge_def sum.case) simp
next
  case one: (Inr one)
  show ?thesis
  proof (cases "mapped_node_at gap (e_two e)")
    case (Inl err)
    with assms one show ?thesis by (simp only: gap_edge_def sum.case) simp
  next
    case two: (Inr two)
    show ?thesis
    proof (cases "push_edge (new_edge_partition (e_id e) (n_id one) (n_id two)) (m_graph gap)")
      case (Inl err)
      with assms one two show ?thesis by (simp only: gap_edge_def Let_def sum.case) simp
    next
      case g1: (Inr g1)
      show ?thesis
      proof (cases "el (e_id e)")
        case None
        with assms one two g1 show ?thesis
          by (simp only: gap_edge_def Let_def sum.case option.case) simp
      next
        case (Some edge_live)
        define upd where "upd = (edges g1)
            [push_edge_ref (new_edge_partition (e_id e) (n_id one) (n_id two)) (m_graph gap)
               := ep_add_live_time edge_live
                    (edges g1 ! push_edge_ref (new_edge_partition (e_id e) (n_id one) (n_id two)) (m_graph gap))]"
        from assms one two g1 Some
        have "Inr (gap\<lparr>m_graph := g1\<lparr>m_edges := (m_edges g1)\<lparr>vec := upd\<rparr>\<rparr>\<rparr>) = (Inr gap' :: error + mapped_graph)"
          by (simp only: gap_edge_def Let_def sum.case option.case upd_def)
        then have "gap' = gap\<lparr>m_graph := g1\<lparr>m_edges := (m_edges g1)\<lparr>vec := upd\<rparr>\<rparr>\<rparr>"
          by (simp only: sum.inject)
        then show ?thesis using push_edge_nodes [OF g1] by simp
      qed
    qed
  qed
qed

lemma gap_edges_nodes:
  "gap_edges es el gap = Inr gap' \<Longrightarrow>
     m_nodes (m_graph gap') = m_nodes (m_graph gap) \<and> m_node_map gap' = m_node_map gap"
proof (induction es arbitrary: gap)
  case Nil
  then show ?case by simp
next
  case (Cons e es)
  from Cons.prems obtain gap1 where a: "gap_edge e el gap = Inr gap1"
    and b: "gap_edges es el gap1 = Inr gap'" by (auto split: sum.splits)
  from gap_edge_nodes [OF a] Cons.IH [OF b] show ?case by simp
qed

lemma gap_inv_cong:
  "gap_inv nl P gap \<Longrightarrow> m_nodes (m_graph gap') = m_nodes (m_graph gap)
   \<Longrightarrow> m_node_map gap' = m_node_map gap \<Longrightarrow> gap_inv nl P gap'"
  by (simp add: gap_inv_def rep_def)

lemma graph_ok_fold_push_node:
  "graph_ok g \<Longrightarrow> graph_ok (fold (\<lambda>node. push_node (f node)) ns g)"
  by (induction ns arbitrary: g) (simp_all add: graph_ok_push_node)

lemma graph_ok_emplace_edges:
  "graph_ok g \<Longrightarrow> emplace_edges es g = Inr g' \<Longrightarrow> graph_ok g'"
proof (induction es arbitrary: g)
  case Nil
  then show ?case by simp
next
  case (Cons e es)
  from Cons.prems(2) obtain g1 where a: "push_edge (new_edge (e_id e) (e_one e) (e_two e)) g = Inr g1"
    and b: "emplace_edges es g1 = Inr g'" by (auto split: sum.splits)
  from graph_ok_push_edge [OF Cons.prems(1) a] b show ?case by (rule Cons.IH)
qed

lemma graph_ok_supergraph_from:
  "graph_ok g \<Longrightarrow> supergraph_from animation g = Inr g' \<Longrightarrow> graph_ok g'"
proof (induction animation arbitrary: g)
  case Nil
  then show ?case by simp
next
  case (Cons state animation)
  from Cons.prems(2) obtain g1 where
    a: "emplace_edges (edges state) (fold (\<lambda>node. push_node (new_node (n_id node))) (nodes state) g) = Inr g1"
    and b: "supergraph_from animation g1 = Inr g'" by (auto split: sum.splits)
  have "graph_ok (fold (\<lambda>node. push_node (new_node (n_id node))) (nodes state) g)"
    using Cons.prems(1) by (rule graph_ok_fold_push_node)
  then have "graph_ok g1" using a by (rule graph_ok_emplace_edges)
  then show ?case using b by (rule Cons.IH)
qed

lemma calculate_supergraph_distinct:
  "calculate_supergraph states = Inr supergraph \<Longrightarrow> distinct (map n_id (nodes supergraph))"
  using graph_ok_supergraph_from [OF graph_ok_empty, of states supergraph]
  by (simp add: calculate_supergraph_def graph_ok_def container_ok_distinct)

lemma partition_of_rep:
  assumes "gap_inv nl P gap" and "a \<in> P"
  shows "partition_of gap a = Some (rep gap a)
     \<and> (\<exists>!j. j < length (nodes (m_graph gap)) \<and> n_id (nodes (m_graph gap) ! j) = rep gap a)"
proof -
  from assms have ok: "container_ok n_id (m_nodes (m_graph gap))"
    and r: "rep gap a \<in> n_id ` set (nodes (m_graph gap))"
    by (simp_all add: gap_inv_def)
  from r container_ok_dom [OF ok, of "rep gap a"] obtain k
    where k: "map' (m_nodes (m_graph gap)) (rep gap a) = Some k" by auto
  with ok have kl: "k < length (nodes (m_graph gap))" and kid: "n_id (nodes (m_graph gap) ! k) = rep gap a"
    by (simp_all add: container_ok_def)
  have "mapped_node_at gap a = node_at (m_graph gap) (rep gap a)"
    by (simp add: mapped_node_at_def rep_def split: option.splits)
  also have "\<dots> = Inr (nodes (m_graph gap) ! k)"
    using k kl by (simp add: node_at_def container_at_def)
  finally have "partition_of gap a = Some (rep gap a)"
    by (simp add: partition_of_def kid)
  moreover have "\<exists>!j. j < length (nodes (m_graph gap)) \<and> n_id (nodes (m_graph gap) ! j) = rep gap a"
  proof (rule ex1I [of _ k])
    show "k < length (nodes (m_graph gap)) \<and> n_id (nodes (m_graph gap) ! k) = rep gap a"
      using kl kid by simp
  next
    fix j assume "j < length (nodes (m_graph gap)) \<and> n_id (nodes (m_graph gap) ! j) = rep gap a"
    with ok have "map' (m_nodes (m_graph gap)) (rep gap a) = Some j" by (simp add: container_ok_def)
    with k show "j = k" by simp
  qed
  ultimately show ?thesis by simp
qed

text \<open>
  The live set of a node id is the set of the states that have a node of that id.
\<close>

lemma live_add_live:
  "live (add_live t j result) i = (if i = j then insert t (live result i) else live result i)"
  by (auto simp: live_def add_live_def add_def split: option.splits)

lemma live_fold_add_live:
  "live (fold (\<lambda>x. add_live t (f x)) xs result) i
     = (if i \<in> f ` set xs then insert t (live result i) else live result i)"
  by (induction xs arbitrary: result) (auto simp: live_add_live)

lemma live_live_times:
  "live (fold (\<lambda>t result. fold (\<lambda>x. add_live t (f x)) (g t) result) [0..<n] Map.empty) i
     = {t. t < n \<and> i \<in> f ` set (g t)}"
proof (induction n)
  case 0
  then show ?case by (simp add: live_def)
next
  case (Suc n)
  then show ?case by (auto simp: live_fold_add_live less_Suc_eq)
qed

lemma live_node_live_times:
  "live (node_live_times states) i = {t. t < length states \<and> i \<in> n_id ` set (nodes (states ! t))}"
  unfolding node_live_times_def by (rule live_live_times)

text \<open>
  Claim C5. For every sequence of states whose supergraph and GAP are computed without an
  exception: every node of the supergraph is assigned, directly or through its alias, to
  exactly one partition node of the GAP, and two nodes of the supergraph with different
  ids that are assigned to the same partition node have disjoint live sets.
\<close>

theorem gap_partitions_nodes:
  assumes "calculate_supergraph states = Inr supergraph"
    and "calculate_gap supergraph (node_live_times states) (edge_live_times states) = Inr gap"
  shows "(\<forall>a \<in> set (nodes supergraph).
            \<exists>p. partition_of gap (n_id a) = Some p
              \<and> (\<exists>!j. j < length (nodes (m_graph gap)) \<and> n_id (nodes (m_graph gap) ! j) = p))
       \<and> (\<forall>a \<in> set (nodes supergraph). \<forall>b \<in> set (nodes supergraph).
            n_id a \<noteq> n_id b \<and> partition_of gap (n_id a) = partition_of gap (n_id b)
            \<longrightarrow> live (node_live_times states) (n_id a) \<inter> live (node_live_times states) (n_id b) = {})"
proof -
  define nl where "nl = node_live_times states"
  define P where "P = n_id ` set (nodes supergraph)"
  obtain gap0 where
    g0: "gap_nodes (nodes supergraph) nl mapped_graph_default = Inr gap0"
    and g1: "gap_edges (edges supergraph) (edge_live_times states) gap0 = Inr gap"
  proof (cases "gap_nodes (nodes supergraph) nl mapped_graph_default")
    case (Inl err)
    with assms(2) show ?thesis by (simp add: calculate_gap_def nl_def)
  next
    case (Inr gap0)
    with assms(2) have "gap_edges (edges supergraph) (edge_live_times states) gap0 = Inr gap"
      by (simp add: calculate_gap_def nl_def)
    with Inr show ?thesis by (rule that)
  qed
  have srt: "\<forall>i l. nl i = Some l \<longrightarrow> sorted l"
    using node_live_times_sorted by (auto simp: nl_def)
  have dst: "distinct (map n_id (nodes supergraph))"
    using assms(1) by (rule calculate_supergraph_distinct)
  have "n_id ` set (nodes supergraph) \<inter> {} = {}" by simp
  with g0 gap_inv_default dst have "gap_inv nl ({} \<union> n_id ` set (nodes supergraph)) gap0"
    using srt by (rule gap_inv_nodes)
  then have inv0: "gap_inv nl P gap0" by (simp add: P_def)
  have e1: "m_nodes (m_graph gap) = m_nodes (m_graph gap0)"
    using gap_edges_nodes [OF g1] by (rule conjunct1)
  have e2: "m_node_map gap = m_node_map gap0"
    using gap_edges_nodes [OF g1] by (rule conjunct2)
  from inv0 e1 e2 have inv: "gap_inv nl P gap" by (rule gap_inv_cong)
  from inv have disj: "\<forall>a \<in> P. \<forall>b \<in> P. a \<noteq> b \<and> rep gap a = rep gap b
      \<longrightarrow> live nl a \<inter> live nl b = {}"
    by (simp add: gap_inv_def)
  have one: "\<exists>p. partition_of gap (n_id a) = Some p
              \<and> (\<exists>!j. j < length (nodes (m_graph gap)) \<and> n_id (nodes (m_graph gap) ! j) = p)"
    if "a \<in> set (nodes supergraph)" for a
  proof -
    have "n_id a \<in> P" using that by (simp add: P_def)
    from partition_of_rep [OF inv this] show ?thesis by (intro exI [of _ "rep gap (n_id a)"])
  qed
  have two: "live nl (n_id a) \<inter> live nl (n_id b) = {}"
    if "a \<in> set (nodes supergraph)" "b \<in> set (nodes supergraph)"
      "n_id a \<noteq> n_id b \<and> partition_of gap (n_id a) = partition_of gap (n_id b)" for a b
  proof -
    have ab: "n_id a \<in> P" "n_id b \<in> P" using that by (simp_all add: P_def)
    from partition_of_rep [OF inv ab(1)] partition_of_rep [OF inv ab(2)] that(3)
    have "rep gap (n_id a) = rep gap (n_id b)" by simp
    moreover have "n_id a \<noteq> n_id b" using that(3) by simp
    ultimately show ?thesis using disj ab by blast
  qed
  show ?thesis
    unfolding nl_def [symmetric] using one two by (intro conjI ballI impI)
qed

theorem gap_partitions_nodes_witness:
  "\<exists>dg supergraph gap. build gap_example = Inr dg
     \<and> calculate_supergraph (m_states dg) = Inr supergraph
     \<and> calculate_gap supergraph (node_live_times (m_states dg)) (edge_live_times (m_states dg)) = Inr gap
     \<and> map n_id (nodes supergraph) = [0, 2, 1]
     \<and> partition_of gap 0 = Some 0 \<and> partition_of gap 1 = Some 0 \<and> partition_of gap 2 = Some 2
     \<and> live (node_live_times (m_states dg)) 0 \<inter> live (node_live_times (m_states dg)) 1 = {}"
proof -
  have "case build gap_example of
          Inl e \<Rightarrow> False
        | Inr dg \<Rightarrow>
            (case calculate_supergraph (m_states dg) of
               Inl e \<Rightarrow> False
             | Inr supergraph \<Rightarrow>
                 (case calculate_gap supergraph (node_live_times (m_states dg))
                         (edge_live_times (m_states dg)) of
                    Inl e \<Rightarrow> False
                  | Inr gap \<Rightarrow> map n_id (nodes supergraph) = [0, 2, 1]
                      \<and> partition_of gap 0 = Some 0 \<and> partition_of gap 1 = Some 0
                      \<and> partition_of gap 2 = Some 2))"
    by code_simp
  then obtain dg supergraph gap where b: "build gap_example = Inr dg"
    and s: "calculate_supergraph (m_states dg) = Inr supergraph"
    and g: "calculate_gap supergraph (node_live_times (m_states dg)) (edge_live_times (m_states dg)) = Inr gap"
    and ids: "map n_id (nodes supergraph) = [0, 2, 1]"
    and p: "partition_of gap 0 = Some 0" "partition_of gap 1 = Some 0" "partition_of gap 2 = Some 2"
    by (auto split: sum.splits)
  from ids have "0 \<in> set (map n_id (nodes supergraph))" "1 \<in> set (map n_id (nodes supergraph))"
    by simp_all
  then obtain a c where a: "a \<in> set (nodes supergraph)" "n_id a = 0"
    and c: "c \<in> set (nodes supergraph)" "n_id c = 1"
    by auto
  from gap_partitions_nodes [OF s g] a c p
  have "live (node_live_times (m_states dg)) 0 \<inter> live (node_live_times (m_states dg)) 1 = {}"
    by (metis zero_neq_one)
  with b s g ids p show ?thesis
    by (intro exI [of _ dg] exI [of _ supergraph] exI [of _ gap]) simp
qed

end
